theory Spec2Isabelle
  imports Main "HOL-Library.AList"
begin

section \<open>Values and strings of the host language\<close>

text \<open>
  The scanner is JavaScript. A \<open>baseline\<close> or \<open>status\<close> field of a feature record may
  hold any value: a boolean, a status string such as \<open>high\<close>, a nested object, or
  nothing at all. Numbers are restricted to integers; no function below computes with
  them. Field names and ids are strings when they are present; an absent or \<open>null\<close>
  string field is \<open>None\<close>.
\<close>

datatype jsval =
    JUndefined
  | JNull
  | JBool bool
  | JNum int
  | JStr string
  | JObj "(string \<times> jsval) list"

text \<open>The operator \<open>a ?? b\<close>: \<open>b\<close> when \<open>a\<close> is \<open>undefined\<close> or \<open>null\<close>, else \<open>a\<close>.\<close>

definition nullish :: "jsval \<Rightarrow> jsval \<Rightarrow> jsval" where
  "nullish a b = (if a = JUndefined \<or> a = JNull then b else a)"

text \<open>
  \<open>String.prototype.toLowerCase\<close>, on ASCII text: the letters \<open>A\<close> to \<open>Z\<close> are moved
  to \<open>a\<close> to \<open>z\<close>, every other character is kept.
\<close>

definition lower_char :: "char \<Rightarrow> char" where
  "lower_char c =
     (case map_of (zip ''ABCDEFGHIJKLMNOPQRSTUVWXYZ'' ''abcdefghijklmnopqrstuvwxyz'') c of
        None \<Rightarrow> c
      | Some l \<Rightarrow> l)"

definition toLowerCase :: "string \<Rightarrow> string" where
  "toLowerCase s = map lower_char s"

text \<open>The class \<open>\s\<close> of the regular expressions and of \<open>trim\<close>, on ASCII text.\<close>

definition is_ws :: "char \<Rightarrow> bool" where
  "is_ws c = (c \<in> set [CHR 0x09, CHR 0x0A, CHR 0x0B, CHR 0x0C, CHR 0x0D, CHR '' ''])"

text \<open>\<open>s.replace(/\s+/g, '-')\<close>: every maximal run of whitespace becomes one hyphen.\<close>

function replace_ws :: "string \<Rightarrow> string" where
  "replace_ws [] = []"
| "replace_ws (c # cs) =
     (if is_ws c then CHR ''-'' # replace_ws (dropWhile is_ws cs) else c # replace_ws cs)"
  by pat_completeness auto
termination
  by (relation "measure length") (auto simp: less_Suc_eq_le length_dropWhile_le)

text \<open>\<open>s.replace(/^:+/, '')\<close>: the leading colons are removed.\<close>

definition strip_colons :: "string \<Rightarrow> string" where
  "strip_colons s = dropWhile (\<lambda>c. c = CHR '':'') s"

text \<open>\<open>file.endsWith(suffix)\<close>.\<close>

definition endsWith :: "string \<Rightarrow> string \<Rightarrow> bool" where
  "endsWith s suffix =
     (length suffix \<le> length s \<and> drop (length s - length suffix) s = suffix)"

section \<open>Ordered containers\<close>

text \<open>
  A JavaScript \<open>Map\<close> iterates in the order in which its keys were first set, and
  \<open>set\<close> on a key already there replaces the value in place: this is \<open>AList.update\<close>
  on an association list, with \<open>map_of\<close> for \<open>get\<close>. A key may be \<open>undefined\<close>, so keys
  are \<open>string option\<close>. A \<open>Set\<close> iterates in insertion order and \<open>add\<close> of a member
  changes nothing.
\<close>

type_synonym ('k, 'v) jsmap = "('k \<times> 'v) list"

definition map_has :: "('k, 'v) jsmap \<Rightarrow> 'k \<Rightarrow> bool" where
  "map_has m k = (map_of m k \<noteq> None)"

definition map_values :: "('k, 'v) jsmap \<Rightarrow> 'v list" where
  "map_values m = map snd m"

definition set_add :: "'a \<Rightarrow> 'a list \<Rightarrow> 'a list" where
  "set_add x xs = (if x \<in> set xs then xs else xs @ [x])"

text \<open>\<open>new Map(pairs)\<close> sets the pairs from left to right.\<close>

definition new_Map :: "('k \<times> 'v) list \<Rightarrow> ('k, 'v) jsmap" where
  "new_Map pairs = foldl (\<lambda>m (k, v). AList.update k v m) [] pairs"

section \<open>Catalog Normalizer\<close>

record feature =
  f_id :: "string option"
  f_name :: "string option"
  f_baseline :: jsval
  f_description :: string

text \<open>A loosely typed feature definition as it is read; every field may be missing.\<close>

record raw_feature =
  raw_id :: "string option"
  raw_name :: "string option"
  raw_baseline :: jsval
  raw_status :: jsval
  raw_description :: "string option"

text \<open>
  The argument of \<open>normalizeFeatures\<close>: nothing, an array of records, or an object whose
  entries (in \<open>Object.entries\<close> order) map an identifier to a record.
\<close>

datatype raw_catalog =
    RawAbsent
  | RawArray "raw_feature list"
  | RawObject "(string \<times> raw_feature) list"

definition description_or_empty :: "string option \<Rightarrow> string" where
  "description_or_empty d = (case d of None \<Rightarrow> [] | Some s \<Rightarrow> s)"

definition normalizeArrayEntry :: "raw_feature \<Rightarrow> feature" where
  "normalizeArrayEntry f =
     \<lparr> f_id = (case raw_id f of
                Some i \<Rightarrow> Some i
              | None \<Rightarrow> (case raw_name f of
                          None \<Rightarrow> None
                        | Some n \<Rightarrow> if n \<noteq> [] then Some (replace_ws (toLowerCase n)) else None)),
       f_name = raw_name f,
       f_baseline = nullish (raw_baseline f) (nullish (raw_status f) (JBool False)),
       f_description = description_or_empty (raw_description f) \<rparr>"

definition normalizeObjectEntry :: "string \<times> raw_feature \<Rightarrow> feature" where
  "normalizeObjectEntry e =
     (case e of (ident, data) \<Rightarrow>
       \<lparr> f_id = Some ident,
         f_name = (case raw_name data of None \<Rightarrow> Some ident | Some n \<Rightarrow> Some n),
         f_baseline = nullish (raw_baseline data) (JBool False),
         f_description = description_or_empty (raw_description data) \<rparr>)"

text \<open>
  In the array branch the source ends with \<open>.filter(Boolean)\<close>; every element is an
  object, hence truthy, and the filter keeps all of them.
\<close>

fun normalizeFeatures :: "raw_catalog \<Rightarrow> feature list" where
  "normalizeFeatures RawAbsent = []"
| "normalizeFeatures (RawArray raw) = filter (\<lambda>_. True) (map normalizeArrayEntry raw)"
| "normalizeFeatures (RawObject raw) = map normalizeObjectEntry raw"

section \<open>Catalog Merger\<close>

text \<open>
  The local overrides of \<open>run\<close>: one feature per entry of \<open>baseline.json\<close>, in
  \<open>Object.entries\<close> order, with the case-folded name as id. Every value of the object
  is read as a record; a value without fields is the record with every field missing.
  A \<open>null\<close> value, on which the property read throws, is outside the record type.
\<close>

definition localOverride :: "string \<times> raw_feature \<Rightarrow> feature" where
  "localOverride e =
     (case e of (name, data) \<Rightarrow>
       \<lparr> f_id = Some (toLowerCase name),
         f_name = Some name,
         f_baseline = nullish (raw_baseline data) (JBool False),
         f_description = description_or_empty (raw_description data) \<rparr>)"

definition localOverrides :: "(string \<times> raw_feature) list \<Rightarrow> feature list" where
  "localOverrides baselineJson = map localOverride baselineJson"

text \<open>The key of a feature in every lookup table: \<open>f.name?.toLowerCase()\<close>.\<close>

definition name_key :: "feature \<Rightarrow> string option" where
  "name_key f = map_option toLowerCase (f_name f)"

text \<open>
  \<open>baselineIgnore.has(x)\<close> for a set of strings; \<open>undefined\<close> is never a member.
\<close>

definition ignore_has :: "string set \<Rightarrow> string option \<Rightarrow> bool" where
  "ignore_has baselineIgnore x = (case x of None \<Rightarrow> False | Some s \<Rightarrow> s \<in> baselineIgnore)"

text \<open>One round of the merge loop of \<open>run\<close>.\<close>

definition merge_step :: "string set \<Rightarrow> (string option, feature) jsmap \<Rightarrow> feature
    \<Rightarrow> (string option, feature) jsmap" where
  "merge_step baselineIgnore merged f =
     (if \<not> ignore_has baselineIgnore (name_key f) \<and> \<not> ignore_has baselineIgnore (f_id f)
      then AList.update (name_key f) f merged
      else merged)"

definition merge :: "string set \<Rightarrow> feature list \<Rightarrow> feature list
    \<Rightarrow> (string option, feature) jsmap" where
  "merge baselineIgnore defaultFeatures localOvr =
     foldl (merge_step baselineIgnore) [] (defaultFeatures @ localOvr)"

section \<open>Policy Evaluator\<close>

record result =
  r_id :: "string option"
  r_name :: "string option"
  r_baseline :: jsval
  r_files :: "string list"

text \<open>
  What \<open>run\<close> computes at its end: \<open>ok\<close>, \<open>details\<close> and \<open>criticalDetected\<close> are
  returned, \<open>unsafe\<close> is the local list that \<open>ok\<close> is computed from.
\<close>

record verdict =
  ok :: bool
  details :: "result list"
  unsafeEntries :: "result list"
  criticalDetected :: "result list"

definition unsafe :: "result list \<Rightarrow> result list" where
  "unsafe results = filter (\<lambda>r. r_baseline r = JBool False) results"

text \<open>\<open>criticalLower.includes(r.id)\<close>; the list holds strings only.\<close>

definition includes_id :: "string list \<Rightarrow> string option \<Rightarrow> bool" where
  "includes_id xs x = (case x of None \<Rightarrow> False | Some s \<Rightarrow> s \<in> set xs)"

definition criticalLower :: "string list \<Rightarrow> string list" where
  "criticalLower criticalFeatures = map toLowerCase criticalFeatures"

definition critical :: "string list \<Rightarrow> result list \<Rightarrow> result list" where
  "critical criticalFeatures results =
     filter (\<lambda>r. includes_id (criticalLower criticalFeatures) (r_id r)) results"

definition evaluate :: "bool \<Rightarrow> string list \<Rightarrow> result list \<Rightarrow> verdict" where
  "evaluate failOnLimited criticalFeatures results =
     (let uns = unsafe results;
          crit = critical criticalFeatures results
      in \<lparr> ok = (\<not> (failOnLimited \<and> (length uns > 0 \<or> length crit > 0))),
           details = results,
           unsafeEntries = uns,
           criticalDetected = crit \<rparr>)"

section \<open>Errors\<close>

text \<open>
  What the scanner's collaborators throw: the script parser, the traversal of a parsed
  script, the stylesheet parser, the selector parser, the file system and the search for
  files. An exception is the \<open>Inl\<close> of a result.
\<close>

datatype error =
    ScriptSyntaxError
  | TraverseError
  | CssSyntaxError
  | SelectorSyntaxError
  | ReadError
  | GlobError

section \<open>Lookup table of a detector\<close>

text \<open>\<open>new Map(features.map((f) => [f.name?.toLowerCase(), f]))\<close>.\<close>

definition featureMap :: "feature list \<Rightarrow> (string option, feature) jsmap" where
  "featureMap features = new_Map (map (\<lambda>f. (name_key f, f)) features)"

text \<open>
  \<open>if (featureMap.has(name)) used.add(featureMap.get(name))\<close>: the detectors' probe of
  the table with a key, adding the feature found to the set of used features.
\<close>

definition probe :: "(string option, feature) jsmap \<Rightarrow> string option \<Rightarrow> feature list
    \<Rightarrow> feature list" where
  "probe fm key used = (case map_of fm key of None \<Rightarrow> used | Some f \<Rightarrow> set_add f used)"

section \<open>Script Detector\<close>

text \<open>
  The syntax tree, as far as the two visitors look at it: an identifier with its name,
  a member expression with its object and its property, and any other node with its
  children. The traversal enters a node before its children.
\<close>

datatype jsnode =
    Identifier string
  | MemberExpression jsnode jsnode
  | OtherNode "jsnode list"

text \<open>\<open>path.node.object?.name\<close>: only an identifier has a name.\<close>

fun node_name :: "jsnode \<Rightarrow> string option" where
  "node_name (Identifier n) = Some n"
| "node_name (MemberExpression obj prop) = None"
| "node_name (OtherNode children) = None"

text \<open>The guard \<open>obj && featureMap.has(obj)\<close>: the empty string is falsy.\<close>

definition visitMemberExpression :: "(string option, feature) jsmap \<Rightarrow> jsnode
    \<Rightarrow> feature list \<Rightarrow> feature list" where
  "visitMemberExpression fm object used =
     (case node_name object of
        None \<Rightarrow> used
      | Some n \<Rightarrow> if toLowerCase n \<noteq> [] then probe fm (Some (toLowerCase n)) used else used)"

text \<open>The two visitors, called on every node of the tree, parents first.\<close>

fun visit :: "(string option, feature) jsmap \<Rightarrow> jsnode \<Rightarrow> feature list \<Rightarrow> feature list"
  and visit_all :: "(string option, feature) jsmap \<Rightarrow> jsnode list \<Rightarrow> feature list
    \<Rightarrow> feature list" where
  "visit fm (Identifier n) used = probe fm (Some (toLowerCase n)) used"
| "visit fm (MemberExpression obj prop) used =
     visit fm prop (visit fm obj (visitMemberExpression fm obj used))"
| "visit fm (OtherNode children) used = visit_all fm children used"
| "visit_all fm [] used = used"
| "visit_all fm (n # ns) used = visit_all fm ns (visit fm n used)"

text \<open>
  \<open>traverse(ast, visitors)\<close>. The library analyses the scopes of the tree while it
  walks and throws on a tree it rejects (a name declared twice in one scope, for one),
  although the text parsed. Which trees it rejects is the parameter \<open>rejects\<close>;
  when it throws, the features collected so far are lost with the call.
\<close>

definition traverse :: "(jsnode \<Rightarrow> error option) \<Rightarrow> (string option, feature) jsmap \<Rightarrow> jsnode
    \<Rightarrow> error + feature list" where
  "traverse rejects fm ast =
     (case rejects ast of Some e \<Rightarrow> Inl e | None \<Rightarrow> Inr (visit fm ast []))"

text \<open>
  Only the call of the parser is inside \<open>try\<close>: what the traversal throws leaves
  \<open>detectFeaturesInJS\<close>.
\<close>

definition detectFeaturesInJS :: "(string \<Rightarrow> error + jsnode) \<Rightarrow> (jsnode \<Rightarrow> error option)
    \<Rightarrow> string \<Rightarrow> feature list \<Rightarrow> error + feature list" where
  "detectFeaturesInJS parse rejects content features =
     (case parse content of
        Inl e \<Rightarrow> Inr []
      | Inr ast \<Rightarrow> traverse rejects (featureMap features) ast)"

section \<open>Style Detector\<close>

text \<open>
  A parsed stylesheet is a list of nodes; a rule carries its selector text and its
  children, an at-rule its children. A parsed selector is a tree in which a pseudo
  component carries its value (\<open>:has\<close>, \<open>::before\<close>) and its argument selectors.
  Both walks enter a node before its children.
\<close>

datatype cssnode =
    Rule string "cssnode list"
  | AtRule "cssnode list"
  | Declaration
  | Comment

datatype selnode =
    Pseudo string "selnode list"
  | SelNode "selnode list"

fun walkPseudos :: "(string option, feature) jsmap \<Rightarrow> selnode \<Rightarrow> feature list \<Rightarrow> feature list"
  and walkPseudos_all :: "(string option, feature) jsmap \<Rightarrow> selnode list \<Rightarrow> feature list
    \<Rightarrow> feature list" where
  "walkPseudos fm (Pseudo v args) used =
     walkPseudos_all fm args (probe fm (Some (toLowerCase (strip_colons v))) used)"
| "walkPseudos fm (SelNode children) used = walkPseudos_all fm children used"
| "walkPseudos_all fm [] used = used"
| "walkPseudos_all fm (n # ns) used = walkPseudos_all fm ns (walkPseudos fm n used)"

text \<open>
  \<open>root.walkRules\<close> with the callback of the source: the selector parser runs on the
  selector of every rule, and what it throws leaves the walk.
\<close>

fun walkRules :: "(string \<Rightarrow> error + selnode list) \<Rightarrow> (string option, feature) jsmap
    \<Rightarrow> cssnode \<Rightarrow> feature list \<Rightarrow> error + feature list"
  and walkRules_all :: "(string \<Rightarrow> error + selnode list) \<Rightarrow> (string option, feature) jsmap
    \<Rightarrow> cssnode list \<Rightarrow> feature list \<Rightarrow> error + feature list" where
  "walkRules processSync fm (Rule selector children) used =
     (case processSync selector of
        Inl e \<Rightarrow> Inl e
      | Inr selectors \<Rightarrow> walkRules_all processSync fm children (walkPseudos_all fm selectors used))"
| "walkRules processSync fm (AtRule children) used = walkRules_all processSync fm children used"
| "walkRules processSync fm Declaration used = Inr used"
| "walkRules processSync fm Comment used = Inr used"
| "walkRules_all processSync fm [] used = Inr used"
| "walkRules_all processSync fm (n # ns) used =
     (case walkRules processSync fm n used of
        Inl e \<Rightarrow> Inl e
      | Inr used' \<Rightarrow> walkRules_all processSync fm ns used')"

definition detectFeaturesInCSS :: "(string \<Rightarrow> error + cssnode list)
    \<Rightarrow> (string \<Rightarrow> error + selnode list) \<Rightarrow> string \<Rightarrow> feature list \<Rightarrow> error + feature list" where
  "detectFeaturesInCSS postcss_parse processSync content features =
     (case postcss_parse content of
        Inl e \<Rightarrow> Inl e
      | Inr root \<Rightarrow> walkRules_all processSync (featureMap features) root [])"

section \<open>Aggregator\<close>

record entry =
  e_feature :: feature
  e_files :: "string list"

text \<open>
  The body of the inner loop of \<open>run\<close>: fetch or create the entry of \<open>f.id\<close>, add the
  file to its set, store it under \<open>f.id\<close>.
\<close>

definition addDetection :: "string \<Rightarrow> (string option, entry) jsmap \<Rightarrow> feature
    \<Rightarrow> (string option, entry) jsmap" where
  "addDetection file report f =
     (let e = (case map_of report (f_id f) of
                 None \<Rightarrow> \<lparr> e_feature = f, e_files = [] \<rparr>
               | Some e \<Rightarrow> e)
      in AList.update (f_id f) (e\<lparr> e_files := set_add file (e_files e) \<rparr>) report)"

definition addDetections :: "string \<Rightarrow> feature list \<Rightarrow> (string option, entry) jsmap
    \<Rightarrow> (string option, entry) jsmap" where
  "addDetections file detected report = foldl (addDetection file) report detected"

text \<open>The fold over a stream of (file, detected features) pairs.\<close>

definition aggregate :: "(string \<times> feature list) list \<Rightarrow> (string option, entry) jsmap" where
  "aggregate stream = foldl (\<lambda>report (file, detected). addDetections file detected report) [] stream"

definition results_of :: "(string option, entry) jsmap \<Rightarrow> result list" where
  "results_of report =
     map (\<lambda>(i, e). \<lparr> r_id = i, r_name = f_name (e_feature e),
                     r_baseline = f_baseline (e_feature e), r_files = e_files e \<rparr>) report"

section \<open>The per-file loop of run\<close>

text \<open>
  The collaborators of the loop: \<open>fs.readFile\<close>, the script parser \<open>parse\<close>, the
  trees that \<open>traverse\<close> rejects, \<open>postcss.parse\<close> and the selector parser behind
  \<open>processSync\<close>.
\<close>

record env =
  env_readFile :: "string \<Rightarrow> error + string"
  env_parse :: "string \<Rightarrow> error + jsnode"
  env_rejects :: "jsnode \<Rightarrow> error option"
  env_postcss_parse :: "string \<Rightarrow> error + cssnode list"
  env_processSync :: "string \<Rightarrow> error + selnode list"

text \<open>\<open>/\.(js|ts|jsx|tsx|html)$/.test(file)\<close>.\<close>

definition is_script :: "string \<Rightarrow> bool" where
  "is_script file =
     (endsWith file ''.js'' \<or> endsWith file ''.ts'' \<or> endsWith file ''.jsx''
      \<or> endsWith file ''.tsx'' \<or> endsWith file ''.html'')"

text \<open>The statements inside \<open>try\<close>, up to the inner loop: read the file, detect.\<close>

definition scan_file :: "env \<Rightarrow> feature list \<Rightarrow> string \<Rightarrow> error + feature list" where
  "scan_file w features file =
     (case env_readFile w file of
        Inl e \<Rightarrow> Inl e
      | Inr content \<Rightarrow>
          if is_script file
          then detectFeaturesInJS (env_parse w) (env_rejects w) content features
          else if endsWith file ''.css''
          then detectFeaturesInCSS (env_postcss_parse w) (env_processSync w) content features
          else Inr [])"

definition try_body :: "env \<Rightarrow> feature list \<Rightarrow> string \<Rightarrow> (string option, entry) jsmap
    \<Rightarrow> error + (string option, entry) jsmap" where
  "try_body w features file report =
     (case scan_file w features file of
        Inl e \<Rightarrow> Inl e
      | Inr detected \<Rightarrow> Inr (addDetections file detected report))"

text \<open>\<open>try { ... } catch { }\<close>: an exception of the body ends the body and is dropped.\<close>

definition try_catch :: "error + 'a \<Rightarrow> 'a \<Rightarrow> error + 'a" where
  "try_catch body unchanged = (case body of Inl e \<Rightarrow> Inr unchanged | Inr r \<Rightarrow> Inr r)"

fun scan_loop :: "env \<Rightarrow> feature list \<Rightarrow> string list \<Rightarrow> (string option, entry) jsmap
    \<Rightarrow> error + (string option, entry) jsmap" where
  "scan_loop w features [] report = Inr report"
| "scan_loop w features (file # files) report =
     (case try_catch (try_body w features file report) report of
        Inl e \<Rightarrow> Inl e
      | Inr report' \<Rightarrow> scan_loop w features files report')"

section \<open>run\<close>

text \<open>
  \<open>loadBaselineIgnore\<close>: the lines of the ignore file, trimmed, case-folded, the empty
  ones dropped; no file, no tokens.
\<close>

fun split_lines :: "string \<Rightarrow> string \<Rightarrow> string list" where
  "split_lines acc [] = [acc]"
| "split_lines acc (c # cs) =
     (if c = CHR 0x0A then acc # split_lines [] cs
      else if c = CHR 0x0D \<and> cs \<noteq> [] \<and> hd cs = CHR 0x0A then acc # split_lines [] (tl cs)
      else split_lines (acc @ [c]) cs)"

definition trim :: "string \<Rightarrow> string" where
  "trim s = rev (dropWhile is_ws (rev (dropWhile is_ws s)))"

definition loadBaselineIgnore :: "error + string \<Rightarrow> string set" where
  "loadBaselineIgnore ignoreFile =
     (case ignoreFile of
        Inl e \<Rightarrow> {}
      | Inr content \<Rightarrow>
          set (filter (\<lambda>l. l \<noteq> []) (map (\<lambda>line. toLowerCase (trim line)) (split_lines [] content))))"

text \<open>\<open>loadBaselineJson\<close>: the parsed object, or the empty object when anything fails.\<close>

definition loadBaselineJson :: "error + (string \<times> raw_feature) list
    \<Rightarrow> (string \<times> raw_feature) list" where
  "loadBaselineJson parsed = (case parsed of Inl e \<Rightarrow> [] | Inr obj \<Rightarrow> obj)"

text \<open>
  \<open>run\<close>, from the bundled catalog, the two local files, the result of the search for
  files and the collaborators, to the verdict. The search \<open>fg(...)\<close> is awaited outside
  any \<open>try\<close>: what it throws leaves \<open>run\<close>.
\<close>

definition run :: "raw_catalog \<Rightarrow> error + (string \<times> raw_feature) list \<Rightarrow> error + string
    \<Rightarrow> env \<Rightarrow> error + string list \<Rightarrow> bool \<Rightarrow> string list \<Rightarrow> error + verdict" where
  "run wfFeatures baselineFile ignoreFile w found failOnLimited criticalFeatures =
     (let baselineIgnore = loadBaselineIgnore ignoreFile;
          defaultFeatures = normalizeFeatures wfFeatures;
          localOvr = localOverrides (loadBaselineJson baselineFile);
          merged = merge baselineIgnore defaultFeatures localOvr;
          features = map_values merged
      in case found of
           Inl e \<Rightarrow> Inl e
         | Inr files \<Rightarrow>
             (case scan_loop w features files [] of
                Inl e \<Rightarrow> Inl e
              | Inr report \<Rightarrow> Inr (evaluate failOnLimited criticalFeatures (results_of report))))"

section \<open>Notions used to state the properties\<close>

text \<open>
  Case folding of one ASCII character, by its code: the codes 65 to 90 of the capital
  letters move up by 32, every other character stays.
\<close>

definition fold_case :: "char \<Rightarrow> char" where
  "fold_case c =
     (if 65 \<le> (of_char c :: nat) \<and> (of_char c :: nat) \<le> 90
      then char_of ((of_char c :: nat) + 32) else c)"

text \<open>
  A feature is ignored when the guard of the merge loop fails for it: its case-folded
  name, or its id as it is stored, is in the ignore set.
\<close>

definition ignored :: "string set \<Rightarrow> feature \<Rightarrow> bool" where
  "ignored baselineIgnore f =
     (ignore_has baselineIgnore (name_key f) \<or> ignore_has baselineIgnore (f_id f))"

text \<open>The last element of a list that satisfies a predicate, if there is one.\<close>

definition last_with :: "('a \<Rightarrow> bool) \<Rightarrow> 'a list \<Rightarrow> 'a option" where
  "last_with P xs = (if filter P xs = [] then None else Some (last (filter P xs)))"

text \<open>The elements of a list in the order of their first occurrences.\<close>

fun first_seen :: "'a list \<Rightarrow> 'a list" where
  "first_seen [] = []"
| "first_seen (x # xs) = x # removeAll x (first_seen xs)"

text \<open>The detection hits of a stream, one (file, feature) pair each, in stream order.\<close>

definition hits :: "(string \<times> feature list) list \<Rightarrow> (string \<times> feature) list" where
  "hits stream = concat (map (\<lambda>(file, detected). map (Pair file) detected) stream)"

text \<open>The values of the pseudo components of a selector tree, parents first.\<close>

fun pseudo_values :: "selnode \<Rightarrow> string list"
  and pseudo_values_all :: "selnode list \<Rightarrow> string list" where
  "pseudo_values (Pseudo v args) = v # pseudo_values_all args"
| "pseudo_values (SelNode children) = pseudo_values_all children"
| "pseudo_values_all [] = []"
| "pseudo_values_all (n # ns) = pseudo_values n @ pseudo_values_all ns"

text \<open>The selector texts of the rules of a stylesheet, parents first.\<close>

fun rule_selectors :: "cssnode \<Rightarrow> string list"
  and rule_selectors_all :: "cssnode list \<Rightarrow> string list" where
  "rule_selectors (Rule selector children) = selector # rule_selectors_all children"
| "rule_selectors (AtRule children) = rule_selectors_all children"
| "rule_selectors Declaration = []"
| "rule_selectors Comment = []"
| "rule_selectors_all [] = []"
| "rule_selectors_all (n # ns) = rule_selectors n @ rule_selectors_all ns"

text \<open>
  The pseudo values of all rules of a stylesheet, under a selector parser; a selector
  that the parser rejects has none.
\<close>

definition stylesheet_pseudos :: "(string \<Rightarrow> error + selnode list) \<Rightarrow> cssnode list
    \<Rightarrow> string list" where
  "stylesheet_pseudos processSync root =
     concat (map (\<lambda>selector. case processSync selector of
                                Inl e \<Rightarrow> []
                              | Inr selectors \<Rightarrow> pseudo_values_all selectors)
                 (rule_selectors_all root))"

section \<open>Case folding and the ignore file\<close>

lemma upper_codes: "map of_char ''ABCDEFGHIJKLMNOPQRSTUVWXYZ'' = [65..<(91::nat)]"
  by (simp add: upt_conv_Cons)

lemma lower_char_upper:
  "c \<in> set ''ABCDEFGHIJKLMNOPQRSTUVWXYZ'' \<Longrightarrow>
     (of_char (lower_char c) :: nat) = of_char c + 32"
  by (auto simp: lower_char_def)

lemma lower_char_other:
  "c \<notin> set ''ABCDEFGHIJKLMNOPQRSTUVWXYZ'' \<Longrightarrow> lower_char c = c"
  by (auto simp: lower_char_def)

lemma upper_iff:
  "c \<in> set ''ABCDEFGHIJKLMNOPQRSTUVWXYZ''
     \<longleftrightarrow> 65 \<le> (of_char c :: nat) \<and> (of_char c :: nat) \<le> 90"
proof -
  have "c \<in> set ''ABCDEFGHIJKLMNOPQRSTUVWXYZ''
          \<longleftrightarrow> (of_char c :: nat) \<in> of_char ` set ''ABCDEFGHIJKLMNOPQRSTUVWXYZ''"
    by (rule inj_image_mem_iff [OF inj_of_char, symmetric])
  also have "of_char ` set ''ABCDEFGHIJKLMNOPQRSTUVWXYZ''
               = set (map of_char ''ABCDEFGHIJKLMNOPQRSTUVWXYZ'' :: nat list)"
    by (simp only: set_map)
  also have "\<dots> = {65..<91}"
    by (simp only: upper_codes set_upt)
  finally show ?thesis by auto
qed

text \<open>The table of \<open>lower_char\<close> is the case folding by character code.\<close>

lemma lower_char_fold_case: "lower_char c = fold_case c"
proof (cases "c \<in> set ''ABCDEFGHIJKLMNOPQRSTUVWXYZ''")
  case True
  then have "(of_char (lower_char c) :: nat) = of_char c + 32"
    by (rule lower_char_upper)
  then have "char_of ((of_char c :: nat) + 32) = char_of (of_char (lower_char c) :: nat)"
    by simp
  also have "\<dots> = lower_char c"
    by (rule char_of_char)
  finally have eq: "char_of ((of_char c :: nat) + 32) = lower_char c" .
  from True have "65 \<le> (of_char c :: nat) \<and> (of_char c :: nat) \<le> 90"
    using upper_iff [of c] by blast
  with eq show ?thesis
    by (simp add: fold_case_def)
next
  case False
  then have "\<not> (65 \<le> (of_char c :: nat) \<and> (of_char c :: nat) \<le> 90)"
    using upper_iff [of c] by blast
  with lower_char_other [OF False] show ?thesis
    by (auto simp: fold_case_def)
qed

lemma toLowerCase_fold_case: "toLowerCase s = map fold_case s"
  by (simp add: toLowerCase_def lower_char_fold_case)

lemma lower_char_idem: "lower_char (lower_char c) = lower_char c"
  by (auto simp: lower_char_def split: option.splits if_splits)

lemma toLowerCase_idem: "toLowerCase (toLowerCase s) = toLowerCase s"
  by (simp add: toLowerCase_def lower_char_idem)

text \<open>Every token loaded from the ignore file is non-empty and case-folded.\<close>

lemma loadBaselineIgnore_folded:
  "t \<in> loadBaselineIgnore ignoreFile \<Longrightarrow> t \<noteq> [] \<and> toLowerCase t = t"
  by (cases ignoreFile) (auto simp: loadBaselineIgnore_def toLowerCase_idem)

lemma loadBaselineIgnore_example:
  "loadBaselineIgnore (Inr (''  Fetch '' @ [CHR 0x0D, CHR 0x0A, CHR 0x0A] @ ''has'')) = {''fetch'', ''has''}"
  by (simp add: loadBaselineIgnore_def trim_def is_ws_def toLowerCase_def lower_char_def insert_commute)

section \<open>Policy Evaluator: the verdict\<close>

lemma evaluate_fields:
  "unsafeEntries (evaluate failOnLimited criticalFeatures results) = unsafe results"
  "criticalDetected (evaluate failOnLimited criticalFeatures results)
     = critical criticalFeatures results"
  "details (evaluate failOnLimited criticalFeatures results) = results"
  "ok (evaluate failOnLimited criticalFeatures results)
     = (\<not> (failOnLimited \<and> (unsafe results \<noteq> [] \<or> critical criticalFeatures results \<noteq> [])))"
  by (simp_all add: evaluate_def Let_def)

text \<open>
  C1. For every list of report entries, every critical list and either value of
  \<open>failOnLimited\<close>: the unsafe entries are exactly the entries whose baseline is the
  boolean \<open>false\<close>, in report order; an entry with any other baseline value (\<open>true\<close>, a
  status string, an object, nothing) is not among them; and \<open>ok\<close> holds if and only if
  \<open>failOnLimited\<close> is off or both the unsafe and the critical entries are empty.
\<close>

theorem policy_unsafe_and_ok:
  "unsafeEntries (evaluate failOnLimited criticalFeatures results)
     = filter (\<lambda>r. r_baseline r = JBool False) results
   \<and> (\<forall>r. r \<in> set (unsafeEntries (evaluate failOnLimited criticalFeatures results))
          \<longleftrightarrow> r \<in> set results \<and> r_baseline r = JBool False)
   \<and> (ok (evaluate failOnLimited criticalFeatures results)
        \<longleftrightarrow> \<not> failOnLimited
            \<or> (unsafeEntries (evaluate failOnLimited criticalFeatures results) = []
               \<and> criticalDetected (evaluate failOnLimited criticalFeatures results) = []))"
  by (auto simp: evaluate_fields unsafe_def)

theorem policy_unsafe_and_ok_witness:
  "unsafeEntries (evaluate True []
       [\<lparr> r_id = Some ''a'', r_name = Some ''A'', r_baseline = JBool False, r_files = [''x.js''] \<rparr>,
        \<lparr> r_id = Some ''b'', r_name = Some ''B'', r_baseline = JStr ''limited'', r_files = [''x.js''] \<rparr>])
     = [\<lparr> r_id = Some ''a'', r_name = Some ''A'', r_baseline = JBool False, r_files = [''x.js''] \<rparr>]
   \<and> \<not> ok (evaluate True []
       [\<lparr> r_id = Some ''a'', r_name = Some ''A'', r_baseline = JBool False, r_files = [''x.js''] \<rparr>,
        \<lparr> r_id = Some ''b'', r_name = Some ''B'', r_baseline = JStr ''limited'', r_files = [''x.js''] \<rparr>])"
  using policy_unsafe_and_ok [of True "[]"
       "[\<lparr> r_id = Some ''a'', r_name = Some ''A'', r_baseline = JBool False, r_files = [''x.js''] \<rparr>,
         \<lparr> r_id = Some ''b'', r_name = Some ''B'', r_baseline = JStr ''limited'', r_files = [''x.js''] \<rparr>]"]
  by simp

section \<open>Ids are case-folded tokens\<close>

text \<open>
  The id of a feature is a lower-case token. The id of a local override is its
  case-folded name; the id of a bundled feature is its key in the bundled catalog, and
  the keys of that catalog are lower-case.
\<close>

lemma fold_case_char_idem: "fold_case (fold_case c) = fold_case c"
  using lower_char_idem [of c] by (simp only: lower_char_fold_case)

lemma fold_case_comp: "fold_case \<circ> fold_case = fold_case"
  by (simp add: fun_eq_iff fold_case_char_idem)

lemma fold_case_idem: "map fold_case (map fold_case s) = map fold_case s"
  by (simp add: fold_case_char_idem)

lemma localOverride_id_folded:
  "f \<in> set (localOverrides baselineJson) \<Longrightarrow> f_id f = Some i \<Longrightarrow> map fold_case i = i"
  by (auto simp: localOverrides_def localOverride_def toLowerCase_fold_case
      fold_case_char_idem)

lemma bundled_id_is_key:
  "f \<in> set (normalizeFeatures (RawObject raw)) \<Longrightarrow> f_id f = Some i \<Longrightarrow> i \<in> fst ` set raw"
  by (force simp: normalizeObjectEntry_def)

section \<open>Policy Evaluator: critical features\<close>

lemma critical_filter:
  "critical criticalFeatures results
     = filter (\<lambda>r. \<exists>c \<in> set criticalFeatures. r_id r = Some (toLowerCase c)) results"
  unfolding critical_def criticalLower_def includes_id_def
  by (rule filter_cong) (auto split: option.splits)

text \<open>
  C7. For every report whose entry ids are case-folded tokens, every critical list and
  either value of \<open>failOnLimited\<close>: the critical entries are exactly the entries, in
  report order, whose id matches an element of the critical list when both are
  case-folded, whatever the baseline of the entry; and with \<open>failOnLimited\<close> set, one
  entry whose id matches the critical list makes \<open>ok\<close> false, be its baseline \<open>true\<close>.
\<close>

theorem critical_entries_match:
  "\<forall>r \<in> set results. \<forall>i. r_id r = Some i \<longrightarrow> map fold_case i = i \<Longrightarrow>
     criticalDetected (evaluate failOnLimited criticalFeatures results)
       = filter (\<lambda>r. \<exists>i. r_id r = Some i
                   \<and> (\<exists>c \<in> set criticalFeatures. map fold_case c = map fold_case i)) results
     \<and> (\<forall>r i c. r \<in> set results \<and> r_id r = Some i \<and> c \<in> set criticalFeatures
            \<and> map fold_case c = map fold_case i \<longrightarrow>
          r \<in> set (criticalDetected (evaluate True criticalFeatures results))
          \<and> \<not> ok (evaluate True criticalFeatures results))"
proof (intro conjI allI impI)
  assume folded: "\<forall>r \<in> set results. \<forall>i. r_id r = Some i \<longrightarrow> map fold_case i = i"
  have "filter (\<lambda>r. \<exists>c \<in> set criticalFeatures. r_id r = Some (toLowerCase c)) results
          = filter (\<lambda>r. \<exists>i. r_id r = Some i
                   \<and> (\<exists>c \<in> set criticalFeatures. map fold_case c = map fold_case i)) results"
  proof (rule filter_cong [OF refl])
    fix r
    assume "r \<in> set results"
    with folded have "\<forall>i. r_id r = Some i \<longrightarrow> map fold_case i = i"
      by blast
    then show "(\<exists>c \<in> set criticalFeatures. r_id r = Some (toLowerCase c))
             = (\<exists>i. r_id r = Some i
                   \<and> (\<exists>c \<in> set criticalFeatures. map fold_case c = map fold_case i))"
      by (auto simp: toLowerCase_fold_case fold_case_comp)
  qed
  then show "criticalDetected (evaluate failOnLimited criticalFeatures results)
       = filter (\<lambda>r. \<exists>i. r_id r = Some i
                   \<and> (\<exists>c \<in> set criticalFeatures. map fold_case c = map fold_case i)) results"
    by (simp add: evaluate_fields critical_filter)
next
  fix r i c
  assume folded: "\<forall>r \<in> set results. \<forall>i. r_id r = Some i \<longrightarrow> map fold_case i = i"
    and a: "r \<in> set results \<and> r_id r = Some i \<and> c \<in> set criticalFeatures
            \<and> map fold_case c = map fold_case i"
  then have "map fold_case i = i"
    by blast
  with a have "r_id r = Some (toLowerCase c)"
    by (simp add: toLowerCase_fold_case)
  with a have mem: "r \<in> set (critical criticalFeatures results)"
    by (auto simp: critical_filter)
  then have "critical criticalFeatures results \<noteq> []"
    by auto
  with mem have "r \<in> set (criticalDetected (evaluate True criticalFeatures results))
          \<and> \<not> ok (evaluate True criticalFeatures results)"
    by (simp add: evaluate_fields)
  then show "r \<in> set (criticalDetected (evaluate True criticalFeatures results))"
    and "\<not> ok (evaluate True criticalFeatures results)"
    by simp_all
qed

theorem critical_entries_match_witness:
  "criticalDetected (evaluate True [''Fetch'']
       [\<lparr> r_id = Some ''fetch'', r_name = Some ''Fetch'', r_baseline = JBool True, r_files = [''a.js''] \<rparr>,
        \<lparr> r_id = Some ''has'', r_name = Some ''has'', r_baseline = JBool True, r_files = [''a.css''] \<rparr>])
     = [\<lparr> r_id = Some ''fetch'', r_name = Some ''Fetch'', r_baseline = JBool True, r_files = [''a.js''] \<rparr>]
   \<and> \<not> ok (evaluate True [''Fetch'']
       [\<lparr> r_id = Some ''fetch'', r_name = Some ''Fetch'', r_baseline = JBool True, r_files = [''a.js''] \<rparr>,
        \<lparr> r_id = Some ''has'', r_name = Some ''has'', r_baseline = JBool True, r_files = [''a.css''] \<rparr>])
   \<and> ok (evaluate True [''Grid'']
       [\<lparr> r_id = Some ''fetch'', r_name = Some ''Fetch'', r_baseline = JBool True, r_files = [''a.js''] \<rparr>,
        \<lparr> r_id = Some ''has'', r_name = Some ''has'', r_baseline = JBool True, r_files = [''a.css''] \<rparr>])"
  using critical_entries_match [of
       "[\<lparr> r_id = Some ''fetch'', r_name = Some ''Fetch'', r_baseline = JBool True, r_files = [''a.js''] \<rparr>,
         \<lparr> r_id = Some ''has'', r_name = Some ''has'', r_baseline = JBool True, r_files = [''a.css''] \<rparr>]"
       True "[''Fetch'']"]
  by (simp add: evaluate_fields unsafe_def critical_def criticalLower_def includes_id_def
      toLowerCase_def lower_char_def lower_char_fold_case [symmetric])

section \<open>Catalog Normalizer: the baseline of a feature\<close>

lemma normalize_array_baseline:
  "map f_baseline (normalizeFeatures (RawArray raw))
     = map (\<lambda>f. if raw_baseline f \<noteq> JUndefined \<and> raw_baseline f \<noteq> JNull then raw_baseline f
                 else if raw_status f \<noteq> JUndefined \<and> raw_status f \<noteq> JNull then raw_status f
                 else JBool False) raw"
  by (simp add: normalizeArrayEntry_def nullish_def)

lemma normalize_object_baseline:
  "map f_baseline (normalizeFeatures (RawObject raw))
     = map (\<lambda>(ident, data).
              if raw_baseline data \<noteq> JUndefined \<and> raw_baseline data \<noteq> JNull then raw_baseline data
              else JBool False) raw"
  by (auto simp: normalizeObjectEntry_def nullish_def split: prod.splits)

text \<open>
  C4 at the mapping shape. A record keyed \<open>fetch\<close> with no \<open>baseline\<close> field and the
  legacy \<open>status\<close> field \<open>high\<close>: the sequence branch of the normalizer would take the
  status, the mapping branch yields the baseline \<open>false\<close>.
\<close>

theorem normalize_mapping_drops_status:
  "normalizeFeatures (RawObject
       [(''fetch'', \<lparr> raw_id = None, raw_name = Some ''Fetch'', raw_baseline = JUndefined,
                      raw_status = JStr ''high'', raw_description = None \<rparr>)])
     = [\<lparr> f_id = Some ''fetch'', f_name = Some ''Fetch'', f_baseline = JBool False,
          f_description = [] \<rparr>]
   \<and> normalizeFeatures (RawArray
       [\<lparr> raw_id = Some ''fetch'', raw_name = Some ''Fetch'', raw_baseline = JUndefined,
          raw_status = JStr ''high'', raw_description = None \<rparr>])
     = [\<lparr> f_id = Some ''fetch'', f_name = Some ''Fetch'', f_baseline = JStr ''high'',
          f_description = [] \<rparr>]"
  by (simp add: normalizeObjectEntry_def normalizeArrayEntry_def nullish_def
      description_or_empty_def)

section \<open>Script Detector: parse failure\<close>

text \<open>
  C5. Whatever the text and the feature list, when the script parser throws on the
  text, \<open>detectFeaturesInJS\<close> returns the empty sequence, and returns it as a value:
  nothing is thrown.
\<close>

theorem script_parse_failure_is_empty:
  "parse content = Inl e \<Longrightarrow> detectFeaturesInJS parse rejects content features = Inr []"
  by (simp add: detectFeaturesInJS_def)

theorem script_parse_failure_is_empty_witness:
  "detectFeaturesInJS (\<lambda>text. if text = ''let = ;'' then Inl ScriptSyntaxError
                               else Inr (OtherNode []))
     (\<lambda>ast. Some TraverseError)
     ''let = ;''
     [\<lparr> f_id = Some ''fetch'', f_name = Some ''fetch'', f_baseline = JBool False,
        f_description = [] \<rparr>] = Inr []"
  using script_parse_failure_is_empty
    [of "\<lambda>text. if text = ''let = ;'' then Inl ScriptSyntaxError else Inr (OtherNode [])"
        "''let = ;''" ScriptSyntaxError "\<lambda>ast. Some TraverseError"]
  by simp

section \<open>Style Detector: parse failure\<close>

text \<open>
  C6. When the stylesheet parser throws on the text, \<open>detectFeaturesInCSS\<close> ends with
  that same error: it is not caught and no sequence, empty or not, is returned.
\<close>

theorem style_parse_failure_propagates:
  "postcss_parse content = Inl e \<Longrightarrow>
     detectFeaturesInCSS postcss_parse processSync content features = Inl e
     \<and> detectFeaturesInCSS postcss_parse processSync content features \<noteq> Inr []"
  by (simp add: detectFeaturesInCSS_def)

theorem style_parse_failure_propagates_witness:
  "detectFeaturesInCSS (\<lambda>text. if text = ''a {'' then Inl CssSyntaxError else Inr [])
     (\<lambda>selector. Inr []) ''a {''
     [\<lparr> f_id = Some ''has'', f_name = Some ''has'', f_baseline = JBool False,
        f_description = [] \<rparr>] = Inl CssSyntaxError"
  using style_parse_failure_propagates
    [of "\<lambda>text. if text = ''a {'' then Inl CssSyntaxError else Inr []" "''a {''" CssSyntaxError]
  by simp

section \<open>Ordered maps built by a loop\<close>

lemma last_with_snoc:
  "last_with P (xs @ [x]) = (if P x then Some x else last_with P xs)"
  by (simp add: last_with_def)

lemma last_with_Nil [simp]: "last_with P [] = None"
  by (simp add: last_with_def)

lemma last_with_None: "last_with P xs = None \<longleftrightarrow> (\<forall>x \<in> set xs. \<not> P x)"
  by (auto simp: last_with_def filter_empty_conv)

lemma last_with_SomeD: "last_with P xs = Some x \<Longrightarrow> x \<in> set xs \<and> P x"
proof -
  assume a: "last_with P xs = Some x"
  then have ne: "filter P xs \<noteq> []" and x: "x = last (filter P xs)"
    by (auto simp: last_with_def split: if_splits)
  from ne have "last (filter P xs) \<in> set (filter P xs)"
    by (rule last_in_set)
  with x show ?thesis by simp
qed

lemma last_with_unique:
  "x \<in> set xs \<Longrightarrow> P x \<Longrightarrow> \<forall>y \<in> set xs. P y \<longrightarrow> y = x \<Longrightarrow> last_with P xs = Some x"
proof -
  assume a: "x \<in> set xs" "P x" "\<forall>y \<in> set xs. P y \<longrightarrow> y = x"
  then have "last_with P xs \<noteq> None"
    by (auto simp: last_with_None)
  then obtain y where y: "last_with P xs = Some y" by auto
  from last_with_SomeD [OF y] have "y \<in> set xs" and "P y" by simp_all
  with a(3) have "y = x" by blast
  with y show ?thesis by simp
qed

lemma last_with_append:
  "last_with P (xs @ ys) = (case last_with P ys of None \<Rightarrow> last_with P xs | Some y \<Rightarrow> Some y)"
proof (induction ys rule: rev_induct)
  case Nil
  then show ?case by simp
next
  case (snoc y ys)
  have "last_with P (xs @ ys @ [y]) = last_with P ((xs @ ys) @ [y])" by simp
  also have "\<dots> = (if P y then Some y else last_with P (xs @ ys))"
    by (rule last_with_snoc)
  finally show ?case using snoc by (simp add: last_with_snoc)
qed

lemma foldl_update_lookup:
  "map_of (foldl (\<lambda>m x. if P x then AList.update (key x) (val x) m else m) m0 xs) k
     = (case last_with (\<lambda>x. P x \<and> key x = k) xs of
          None \<Rightarrow> map_of m0 k
        | Some x \<Rightarrow> Some (val x))"
  by (induction xs rule: rev_induct) (simp_all add: last_with_snoc update_conv')

lemma set_update_subset: "set (AList.update k v al) \<subseteq> insert (k, v) (set al)"
  by (induction al) auto

section \<open>Catalog Merger: overrides and the ignore set\<close>

lemma merge_step_alt:
  "merge_step baselineIgnore = (\<lambda>m f. if \<not> ignored baselineIgnore f
                                       then AList.update (name_key f) f m else m)"
  by (simp add: merge_step_def ignored_def fun_eq_iff)

lemma merge_lookup:
  "map_of (merge baselineIgnore defaultFeatures localOvr) k
     = last_with (\<lambda>f. \<not> ignored baselineIgnore f \<and> name_key f = k) (defaultFeatures @ localOvr)"
proof -
  let ?fs = "defaultFeatures @ localOvr"
  let ?hit = "last_with (\<lambda>f. \<not> ignored baselineIgnore f \<and> name_key f = k) ?fs"
  have "map_of (foldl (\<lambda>m f. if \<not> ignored baselineIgnore f
                                then AList.update (name_key f) ((\<lambda>f. f) f) m else m) [] ?fs) k
          = (case ?hit of None \<Rightarrow> map_of [] k | Some f \<Rightarrow> Some ((\<lambda>f. f) f))"
    by (rule foldl_update_lookup)
  also have "\<dots> = ?hit"
    by (cases ?hit) simp_all
  finally show ?thesis
    by (simp only: merge_def merge_step_alt)
qed

lemma merge_entries:
  "(k, f) \<in> set (foldl (merge_step baselineIgnore) m fs) \<Longrightarrow>
     (k, f) \<in> set m \<or> (f \<in> set fs \<and> \<not> ignored baselineIgnore f \<and> k = name_key f)"
proof (induction fs arbitrary: k f rule: rev_induct)
  case Nil
  then show ?case by simp
next
  case (snoc x xs)
  show ?case
  proof (cases "ignored baselineIgnore x")
    case True
    with snoc show ?thesis by (auto simp: merge_step_alt)
  next
    case False
    with snoc.prems have "(k, f) \<in> insert (name_key x, x) (set (foldl (merge_step baselineIgnore) m xs))"
      using set_update_subset [of "name_key x" x "foldl (merge_step baselineIgnore) m xs"]
      by (auto simp: merge_step_alt)
    with snoc.IH False show ?thesis by auto
  qed
qed

lemma name_key_localOverride: "name_key (localOverride e) = Some (toLowerCase (fst e))"
  by (cases e) (simp add: name_key_def localOverride_def)

lemma ignored_localOverride:
  "ignored baselineIgnore (localOverride e) \<longleftrightarrow> toLowerCase (fst e) \<in> baselineIgnore"
  by (cases e) (simp add: ignored_def ignore_has_def name_key_def localOverride_def)

lemma last_with_map:
  "last_with P (map g xs) = map_option g (last_with (\<lambda>x. P (g x)) xs)"
  by (induction xs rule: rev_induct) (simp_all add: last_with_snoc)

lemma merge_lookup_ignored_key:
  "k \<in> baselineIgnore \<Longrightarrow> map_of (merge baselineIgnore defaultFeatures localOvr) (Some k) = None"
  by (auto simp: merge_lookup last_with_None ignored_def ignore_has_def)

lemma merge_lookup_local:
  assumes "toLowerCase n \<notin> baselineIgnore"
  shows "map_of (merge baselineIgnore defaultFeatures (localOverrides baselineJson))
           (Some (toLowerCase n))
         = (case last_with (\<lambda>e. toLowerCase (fst e) = toLowerCase n) baselineJson of
              None \<Rightarrow> last_with (\<lambda>f. \<not> ignored baselineIgnore f \<and> name_key f = Some (toLowerCase n))
                        defaultFeatures
            | Some e \<Rightarrow> Some (localOverride e))"
proof -
  have "(\<lambda>e. \<not> ignored baselineIgnore (localOverride e)
              \<and> name_key (localOverride e) = Some (toLowerCase n))
        = (\<lambda>e. toLowerCase (fst e) = toLowerCase n)"
    using assms by (auto simp: fun_eq_iff ignored_localOverride name_key_localOverride)
  then show ?thesis
    by (simp add: merge_lookup last_with_append localOverrides_def last_with_map
        split: option.splits)
qed

text \<open>
  C2, as the code has it. The merge loop runs over the bundled features first and the
  local overrides second and stores each feature that passes the ignore guard under its
  case-folded name. For a local override named \<open>n\<close>: when the case-folded \<open>n\<close> is in the
  ignore set the table has no entry at that key; otherwise the entry at that key is the
  Feature of the last local override whose case-folded name it is, whatever the bundled
  catalog holds, and it is the Feature of \<open>n\<close> itself when no other override folds to
  the same key.
\<close>

theorem local_override_wins:
  "(n, d) \<in> set baselineJson \<Longrightarrow>
     (toLowerCase n \<in> baselineIgnore \<longrightarrow>
        map_of (merge baselineIgnore defaultFeatures (localOverrides baselineJson))
          (Some (toLowerCase n)) = None)
     \<and> (toLowerCase n \<notin> baselineIgnore \<longrightarrow>
        (\<exists>e \<in> set baselineJson.
           toLowerCase (fst e) = toLowerCase n
           \<and> last_with (\<lambda>e. toLowerCase (fst e) = toLowerCase n) baselineJson = Some e
           \<and> map_of (merge baselineIgnore defaultFeatures (localOverrides baselineJson))
               (Some (toLowerCase n)) = Some (localOverride e)))
     \<and> (toLowerCase n \<notin> baselineIgnore
          \<and> (\<forall>e \<in> set baselineJson. toLowerCase (fst e) = toLowerCase n \<longrightarrow> e = (n, d)) \<longrightarrow>
        map_of (merge baselineIgnore defaultFeatures (localOverrides baselineJson))
          (Some (toLowerCase n)) = Some (localOverride (n, d)))"
proof (intro conjI impI)
  assume "toLowerCase n \<in> baselineIgnore"
  then show "map_of (merge baselineIgnore defaultFeatures (localOverrides baselineJson))
          (Some (toLowerCase n)) = None"
    by (rule merge_lookup_ignored_key)
next
  assume mem: "(n, d) \<in> set baselineJson" and free: "toLowerCase n \<notin> baselineIgnore"
  let ?P = "\<lambda>e. toLowerCase (fst e) = toLowerCase n"
  from mem have "\<exists>e \<in> set baselineJson. ?P e"
    by (intro bexI [of _ "(n, d)"]) simp_all
  then have "last_with ?P baselineJson \<noteq> None"
    by (simp add: last_with_None)
  then obtain e where e: "last_with ?P baselineJson = Some e"
    by auto
  from last_with_SomeD [OF e] have "e \<in> set baselineJson" and "?P e"
    by simp_all
  moreover from e have "map_of (merge baselineIgnore defaultFeatures (localOverrides baselineJson))
               (Some (toLowerCase n)) = Some (localOverride e)"
    by (simp add: merge_lookup_local [OF free])
  ultimately show "\<exists>e \<in> set baselineJson.
           toLowerCase (fst e) = toLowerCase n
           \<and> last_with ?P baselineJson = Some e
           \<and> map_of (merge baselineIgnore defaultFeatures (localOverrides baselineJson))
               (Some (toLowerCase n)) = Some (localOverride e)"
    using e by blast
next
  assume mem: "(n, d) \<in> set baselineJson"
    and a: "toLowerCase n \<notin> baselineIgnore
          \<and> (\<forall>e \<in> set baselineJson. toLowerCase (fst e) = toLowerCase n \<longrightarrow> e = (n, d))"
  let ?P = "\<lambda>e. toLowerCase (fst e) = toLowerCase n"
  from a have free: "toLowerCase n \<notin> baselineIgnore" and
    only: "\<forall>e \<in> set baselineJson. ?P e \<longrightarrow> e = (n, d)"
    by simp_all
  have "last_with ?P baselineJson = Some (n, d)"
  proof (rule last_with_unique)
    show "(n, d) \<in> set baselineJson" by (rule mem)
    show "?P (n, d)" by simp
    show "\<forall>e \<in> set baselineJson. ?P e \<longrightarrow> e = (n, d)" by (rule only)
  qed
  then show "map_of (merge baselineIgnore defaultFeatures (localOverrides baselineJson))
          (Some (toLowerCase n)) = Some (localOverride (n, d))"
    by (simp add: merge_lookup_local [OF free])
qed

theorem local_override_wins_witness:
  "map_of (merge {}
       (normalizeFeatures (RawObject
          [(''foo-api'', \<lparr> raw_id = None, raw_name = Some ''Foo'', raw_baseline = JBool False,
                           raw_status = JUndefined, raw_description = None \<rparr>)]))
       (localOverrides
          [(''foo'', \<lparr> raw_id = None, raw_name = None, raw_baseline = JBool True,
                       raw_status = JUndefined, raw_description = None \<rparr>)]))
     (Some ''foo'')
   = Some \<lparr> f_id = Some ''foo'', f_name = Some ''foo'', f_baseline = JBool True,
            f_description = [] \<rparr>"
  using local_override_wins [of "''foo''"
      "\<lparr> raw_id = None, raw_name = None, raw_baseline = JBool True,
         raw_status = JUndefined, raw_description = None \<rparr>"
      "[(''foo'', \<lparr> raw_id = None, raw_name = None, raw_baseline = JBool True,
                    raw_status = JUndefined, raw_description = None \<rparr>)]"
      "{}"
      "normalizeFeatures (RawObject
          [(''foo-api'', \<lparr> raw_id = None, raw_name = Some ''Foo'', raw_baseline = JBool False,
                           raw_status = JUndefined, raw_description = None \<rparr>)])"]
  by (simp add: localOverride_def toLowerCase_def lower_char_def nullish_def
      description_or_empty_def)

text \<open>
  The bundled \<open>Foo\<close> and the local override \<open>foo\<close> share the key \<open>foo\<close>; with \<open>foo\<close> in
  the ignore set the merged table has no entry at that key.
\<close>

theorem local_override_ignored_counterexample:
  "name_key \<lparr> f_id = Some ''foo-api'', f_name = Some ''Foo'', f_baseline = JBool False,
              f_description = [] \<rparr> = Some ''foo''
   \<and> name_key (localOverride
        (''foo'', \<lparr> raw_id = None, raw_name = None, raw_baseline = JBool True,
                    raw_status = JUndefined, raw_description = None \<rparr>)) = Some ''foo''
   \<and> map_of (merge {''foo''}
        [\<lparr> f_id = Some ''foo-api'', f_name = Some ''Foo'', f_baseline = JBool False,
           f_description = [] \<rparr>]
        (localOverrides
          [(''foo'', \<lparr> raw_id = None, raw_name = None, raw_baseline = JBool True,
                       raw_status = JUndefined, raw_description = None \<rparr>)]))
      (Some ''foo'') = None"
  by (simp add: merge_def merge_step_def ignore_has_def name_key_def localOverrides_def
      localOverride_def toLowerCase_def lower_char_def)

text \<open>
  C3. For every feature whose id is a case-folded token, from either source, and every
  ignore set: when the case-folded name of the feature or its case-folded id is in the
  ignore set, the merge loop skips the feature, and the feature is not among the
  features of the merged table, whatever the bundled catalog and the local overrides
  are. Moreover no token of the ignore set is a key of the merged table.
\<close>

theorem ignored_feature_never_merged:
  "\<forall>i. f_id f = Some i \<longrightarrow> map fold_case i = i \<Longrightarrow>
   (\<exists>n. f_name f = Some n \<and> map fold_case n \<in> baselineIgnore)
     \<or> (\<exists>i. f_id f = Some i \<and> map fold_case i \<in> baselineIgnore) \<Longrightarrow>
     merge_step baselineIgnore merged f = merged
     \<and> f \<notin> set (map_values (merge baselineIgnore defaultFeatures localOvr))
     \<and> (\<forall>t \<in> baselineIgnore. \<not> map_has (merge baselineIgnore defaultFeatures localOvr) (Some t))"
proof (intro conjI ballI)
  assume folded: "\<forall>i. f_id f = Some i \<longrightarrow> map fold_case i = i"
    and a: "(\<exists>n. f_name f = Some n \<and> map fold_case n \<in> baselineIgnore)
     \<or> (\<exists>i. f_id f = Some i \<and> map fold_case i \<in> baselineIgnore)"
  have ign: "ignored baselineIgnore f"
    using a
  proof
    assume "\<exists>n. f_name f = Some n \<and> map fold_case n \<in> baselineIgnore"
    then show ?thesis
      by (auto simp: ignored_def ignore_has_def name_key_def toLowerCase_fold_case)
  next
    assume "\<exists>i. f_id f = Some i \<and> map fold_case i \<in> baselineIgnore"
    then obtain i where i: "f_id f = Some i" and "map fold_case i \<in> baselineIgnore"
      by blast
    moreover from folded i have "map fold_case i = i"
      by blast
    ultimately show ?thesis
      by (simp add: ignored_def ignore_has_def)
  qed
  then show "merge_step baselineIgnore merged f = merged"
    by (simp add: merge_step_alt)
  show "f \<notin> set (map_values (merge baselineIgnore defaultFeatures localOvr))"
  proof
    assume "f \<in> set (map_values (merge baselineIgnore defaultFeatures localOvr))"
    then obtain k where
      "(k, f) \<in> set (foldl (merge_step baselineIgnore) [] (defaultFeatures @ localOvr))"
      by (auto simp: map_values_def merge_def)
    from merge_entries [OF this] have "\<not> ignored baselineIgnore f"
      by simp
    with ign show False
      by simp
  qed
next
  fix t
  assume "t \<in> baselineIgnore"
  then show "\<not> map_has (merge baselineIgnore defaultFeatures localOvr) (Some t)"
    by (simp add: map_has_def merge_lookup_ignored_key)
qed

theorem ignored_feature_never_merged_witness:
  "map_values (merge {''foo'', ''grid-api''}
       [\<lparr> f_id = Some ''foo-api'', f_name = Some ''Foo'', f_baseline = JBool False,
          f_description = [] \<rparr>,
        \<lparr> f_id = Some ''grid-api'', f_name = Some ''Grid'', f_baseline = JBool False,
          f_description = [] \<rparr>,
        \<lparr> f_id = Some ''bar'', f_name = Some ''Bar'', f_baseline = JBool False,
          f_description = [] \<rparr>]
       (localOverrides
          [(''FOO'', \<lparr> raw_id = None, raw_name = None, raw_baseline = JBool True,
                       raw_status = JUndefined, raw_description = None \<rparr>)]))
   = [\<lparr> f_id = Some ''bar'', f_name = Some ''Bar'', f_baseline = JBool False,
         f_description = [] \<rparr>]
   \<and> \<lparr> f_id = Some ''foo-api'', f_name = Some ''Foo'', f_baseline = JBool False,
          f_description = [] \<rparr>
      \<notin> set (map_values (merge {''foo'', ''grid-api''}
       [\<lparr> f_id = Some ''foo-api'', f_name = Some ''Foo'', f_baseline = JBool False,
          f_description = [] \<rparr>,
        \<lparr> f_id = Some ''grid-api'', f_name = Some ''Grid'', f_baseline = JBool False,
          f_description = [] \<rparr>,
        \<lparr> f_id = Some ''bar'', f_name = Some ''Bar'', f_baseline = JBool False,
          f_description = [] \<rparr>]
       (localOverrides
          [(''FOO'', \<lparr> raw_id = None, raw_name = None, raw_baseline = JBool True,
                       raw_status = JUndefined, raw_description = None \<rparr>)])))"
  using ignored_feature_never_merged [of
      "\<lparr> f_id = Some ''foo-api'', f_name = Some ''Foo'', f_baseline = JBool False,
         f_description = [] \<rparr>"
      "{''foo'', ''grid-api''}"
      "[]"
      "[\<lparr> f_id = Some ''foo-api'', f_name = Some ''Foo'', f_baseline = JBool False,
          f_description = [] \<rparr>,
        \<lparr> f_id = Some ''grid-api'', f_name = Some ''Grid'', f_baseline = JBool False,
          f_description = [] \<rparr>,
        \<lparr> f_id = Some ''bar'', f_name = Some ''Bar'', f_baseline = JBool False,
          f_description = [] \<rparr>]"
      "localOverrides
          [(''FOO'', \<lparr> raw_id = None, raw_name = None, raw_baseline = JBool True,
                       raw_status = JUndefined, raw_description = None \<rparr>)]"]
  by (simp add: merge_def merge_step_def ignore_has_def name_key_def map_values_def
      localOverrides_def localOverride_def nullish_def description_or_empty_def
      toLowerCase_def lower_char_def lower_char_fold_case [symmetric])

section \<open>Aggregator: the report\<close>

lemma set_first_seen [simp]: "set (first_seen xs) = set xs"
  by (induction xs) auto

lemma distinct_first_seen [simp]: "distinct (first_seen xs)"
  by (induction xs) (simp_all add: distinct_removeAll)

lemma first_seen_snoc: "first_seen (xs @ [x]) = set_add x (first_seen xs)"
proof (induction xs)
  case Nil
  then show ?case by (simp add: set_add_def)
next
  case (Cons a xs)
  then show ?case by (cases "x = a") (auto simp: set_add_def)
qed

lemma addDetections_as_hits:
  "addDetections file detected report
     = foldl (\<lambda>r (file, f). addDetection file r f) report (map (Pair file) detected)"
  by (simp add: addDetections_def foldl_map)

lemma fold_stream_as_hits:
  "foldl (\<lambda>report (file, detected). addDetections file detected report) report stream
     = foldl (\<lambda>r (file, f). addDetection file r f) report (hits stream)"
proof (induction stream arbitrary: report)
  case Nil
  then show ?case by (simp add: hits_def)
next
  case (Cons p stream)
  obtain path detected where p: "p = (path, detected)" by (cases p)
  have "hits (p # stream) = map (Pair path) detected @ hits stream"
    by (simp add: hits_def p)
  with Cons [of "addDetections path detected report"] show ?case
    by (simp add: p addDetections_as_hits)
qed

lemma aggregate_as_hits:
  "aggregate stream = foldl (\<lambda>r (file, f). addDetection file r f) [] (hits stream)"
  by (simp add: aggregate_def fold_stream_as_hits)

lemma addDetection_keys:
  "map fst (addDetection file report f) = set_add (f_id f) (map fst report)"
  by (simp add: addDetection_def Let_def update_keys set_add_def)

lemma hits_keys:
  "map fst (foldl (\<lambda>r (file, f). addDetection file r f) [] hs)
     = first_seen (map (\<lambda>h. f_id (snd h)) hs)"
proof (induction hs rule: rev_induct)
  case Nil
  then show ?case by simp
next
  case (snoc h hs)
  obtain path f where h: "h = (path, f)" by (cases h)
  from snoc show ?case
    by (simp add: h addDetection_keys first_seen_snoc)
qed

lemma hits_entries:
  "map_of (foldl (\<lambda>r (file, f). addDetection file r f) [] hs) k
     = (if filter (\<lambda>h. f_id (snd h) = k) hs = [] then None
        else Some \<lparr> e_feature = snd (hd (filter (\<lambda>h. f_id (snd h) = k) hs)),
                    e_files = first_seen (map fst (filter (\<lambda>h. f_id (snd h) = k) hs)) \<rparr>)"
proof (induction hs rule: rev_induct)
  case Nil
  then show ?case by simp
next
  case (snoc h hs)
  obtain path f where h: "h = (path, f)" by (cases h)
  let ?r = "foldl (\<lambda>r (file, f). addDetection file r f) [] hs"
  let ?hk = "filter (\<lambda>h. f_id (snd h) = k) hs"
  have step: "foldl (\<lambda>r (file, f). addDetection file r f) [] (hs @ [h]) = addDetection path ?r f"
    by (simp add: h)
  show ?case
  proof (cases "f_id f = k")
    case False
    then have "map_of (addDetection path ?r f) k = map_of ?r k"
      by (simp add: addDetection_def Let_def update_conv')
    with False snoc show ?thesis
      by (simp add: step h)
  next
    case True
    show ?thesis
    proof (cases "?hk = []")
      case True
      with snoc \<open>f_id f = k\<close> have "map_of ?r (f_id f) = None" by simp
      then have "map_of (addDetection path ?r f) k
                   = Some \<lparr> e_feature = f, e_files = [path] \<rparr>"
        using \<open>f_id f = k\<close> by (simp add: addDetection_def update_conv' set_add_def)
      with True \<open>f_id f = k\<close> show ?thesis
        by (simp add: step h)
    next
      case False
      with snoc \<open>f_id f = k\<close> have
        "map_of ?r (f_id f) = Some \<lparr> e_feature = snd (hd ?hk),
                                       e_files = first_seen (map fst ?hk) \<rparr>"
        by simp
      then have "map_of (addDetection path ?r f) k
                   = Some \<lparr> e_feature = snd (hd ?hk),
                             e_files = set_add path (first_seen (map fst ?hk)) \<rparr>"
        using \<open>f_id f = k\<close> by (simp add: addDetection_def update_conv')
      with False \<open>f_id f = k\<close> show ?thesis
        by (simp add: step h first_seen_snoc)
    qed
  qed
qed

lemma aggregate_entry:
  assumes "(k, e) \<in> set (aggregate stream)"
  shows "e_files e = first_seen (map fst (filter (\<lambda>h. f_id (snd h) = k) (hits stream)))"
proof -
  have "distinct (map fst (aggregate stream))"
    by (simp add: aggregate_as_hits hits_keys)
  with assms have "map_of (aggregate stream) k = Some e"
    by simp
  then show ?thesis
    by (auto simp: aggregate_as_hits hits_entries split: if_splits)
qed

lemma hit_in_stream:
  "(path, f) \<in> set (hits stream) \<longleftrightarrow> (\<exists>detected. (path, detected) \<in> set stream \<and> f \<in> set detected)"
  by (auto simp: hits_def)

text \<open>Scanning again what was just scanned changes nothing.\<close>

lemma addDetection_again:
  assumes "map_of report (f_id f) = Some e" and "path \<in> set (e_files e)"
  shows "addDetection path report f = report"
proof -
  from assms(2) have "e\<lparr> e_files := set_add path (e_files e) \<rparr> = e"
    by (simp add: set_add_def)
  with assms(1) show ?thesis
    by (simp add: addDetection_def update_triv)
qed

lemma addDetection_has:
  "\<exists>e. map_of (addDetection path report f) (f_id f) = Some e \<and> path \<in> set (e_files e)"
  by (auto simp: addDetection_def Let_def update_conv' set_add_def split: option.splits)

lemma addDetection_keeps:
  assumes "map_of report k = Some e" and "path \<in> set (e_files e)"
  shows "\<exists>e'. map_of (addDetection path' report g) k = Some e' \<and> path \<in> set (e_files e')"
  using assms
  by (cases "f_id g = k") (auto simp: addDetection_def Let_def update_conv' set_add_def)

lemma addDetections_has:
  "f \<in> set detected \<Longrightarrow>
     \<exists>e. map_of (addDetections path detected report) (f_id f) = Some e \<and> path \<in> set (e_files e)"
proof (induction detected rule: rev_induct)
  case Nil
  then show ?case by simp
next
  case (snoc g detected)
  have step: "addDetections path (detected @ [g]) report
                = addDetection path (addDetections path detected report) g"
    by (simp add: addDetections_def)
  show ?case
  proof (cases "f = g")
    case True
    then show ?thesis by (simp add: step addDetection_has)
  next
    case False
    with snoc obtain e where "map_of (addDetections path detected report) (f_id f) = Some e"
      and "path \<in> set (e_files e)" by auto
    then show ?thesis
      unfolding step by (rule addDetection_keeps)
  qed
qed

lemma addDetections_again:
  "\<forall>f \<in> set detected. \<exists>e. map_of report (f_id f) = Some e \<and> path \<in> set (e_files e) \<Longrightarrow>
     addDetections path detected report = report"
proof (induction detected rule: rev_induct)
  case Nil
  then show ?case by (simp add: addDetections_def)
next
  case (snoc g detected)
  then have "addDetections path detected report = report"
    by simp
  moreover from snoc.prems obtain e where "map_of report (f_id g) = Some e"
    and "path \<in> set (e_files e)" by auto
  ultimately show ?case
    by (simp add: addDetections_def addDetection_again)
qed

lemma addDetections_twice:
  "addDetections path detected (addDetections path detected report)
     = addDetections path detected report"
  by (rule addDetections_again) (simp add: addDetections_has)

text \<open>
  C9. After folding any stream of (file, features) pairs: the report has one entry per
  feature id (its keys are distinct, and they are the ids of the features detected);
  the file list of every entry has no duplicate and holds exactly the files in which a
  feature of that id was detected; the report, and the result list made from it,
  iterate in the order in which the ids were first seen; and feeding a pair a second
  time leaves the report as it was.
\<close>

theorem aggregate_report_invariants:
  "distinct (map fst (aggregate stream))
   \<and> (\<forall>(k, e) \<in> set (aggregate stream).
         distinct (e_files e)
         \<and> set (e_files e)
             = {path. \<exists>detected f. (path, detected) \<in> set stream \<and> f \<in> set detected \<and> f_id f = k})
   \<and> map fst (aggregate stream) = first_seen (map (\<lambda>h. f_id (snd h)) (hits stream))
   \<and> map r_id (results_of (aggregate stream))
       = first_seen (map (\<lambda>h. f_id (snd h)) (hits stream))
   \<and> aggregate (stream @ [(path, detected), (path, detected)])
       = aggregate (stream @ [(path, detected)])
   \<and> aggregate [(path, [f]), (path, [f])] = [(f_id f, \<lparr> e_feature = f, e_files = [path] \<rparr>)]"
proof (intro conjI)
  show keys: "map fst (aggregate stream) = first_seen (map (\<lambda>h. f_id (snd h)) (hits stream))"
    by (simp add: aggregate_as_hits hits_keys)
  then show "distinct (map fst (aggregate stream))"
    by simp
  have "map r_id (results_of (aggregate stream)) = map fst (aggregate stream)"
    by (simp add: results_of_def split_def)
  with keys show "map r_id (results_of (aggregate stream))
       = first_seen (map (\<lambda>h. f_id (snd h)) (hits stream))"
    by simp
  show "\<forall>(k, e) \<in> set (aggregate stream).
         distinct (e_files e)
         \<and> set (e_files e)
             = {path. \<exists>detected f. (path, detected) \<in> set stream \<and> f \<in> set detected \<and> f_id f = k}"
  proof (clarify, intro conjI)
    fix k e
    assume mem: "(k, e) \<in> set (aggregate stream)"
    note files = aggregate_entry [OF mem]
    show "distinct (e_files e)"
      by (simp add: files)
    have "set (e_files e) = {path. \<exists>f. (path, f) \<in> set (hits stream) \<and> f_id f = k}"
      by (force simp: files)
    then show "set (e_files e)
             = {path. \<exists>detected f. (path, detected) \<in> set stream \<and> f \<in> set detected \<and> f_id f = k}"
      by (auto simp: hit_in_stream)
  qed
  show "aggregate (stream @ [(path, detected), (path, detected)])
       = aggregate (stream @ [(path, detected)])"
    by (simp add: aggregate_def addDetections_twice)
  show "aggregate [(path, [f]), (path, [f])] = [(f_id f, \<lparr> e_feature = f, e_files = [path] \<rparr>)]"
    by (simp add: aggregate_def addDetections_def addDetection_def set_add_def)
qed

theorem aggregate_report_invariants_witness:
  "aggregate
     [(''a.js'', [\<lparr> f_id = Some ''fetch'', f_name = Some ''fetch'', f_baseline = JBool True,
                      f_description = [] \<rparr>]),
      (''a.js'', [\<lparr> f_id = Some ''fetch'', f_name = Some ''fetch'', f_baseline = JBool True,
                      f_description = [] \<rparr>])]
   = [(Some ''fetch'',
       \<lparr> e_feature = \<lparr> f_id = Some ''fetch'', f_name = Some ''fetch'', f_baseline = JBool True,
                        f_description = [] \<rparr>,
         e_files = [''a.js''] \<rparr>)]
   \<and> distinct (map fst (aggregate
     [(''a.js'', [\<lparr> f_id = Some ''fetch'', f_name = Some ''fetch'', f_baseline = JBool True,
                      f_description = [] \<rparr>]),
      (''b.js'', [\<lparr> f_id = Some ''has'', f_name = Some ''has'', f_baseline = JBool False,
                      f_description = [] \<rparr>,
                   \<lparr> f_id = Some ''fetch'', f_name = Some ''fetch'', f_baseline = JBool True,
                      f_description = [] \<rparr>])]))
   \<and> map fst (aggregate
     [(''a.js'', [\<lparr> f_id = Some ''fetch'', f_name = Some ''fetch'', f_baseline = JBool True,
                      f_description = [] \<rparr>]),
      (''b.js'', [\<lparr> f_id = Some ''has'', f_name = Some ''has'', f_baseline = JBool False,
                      f_description = [] \<rparr>,
                   \<lparr> f_id = Some ''fetch'', f_name = Some ''fetch'', f_baseline = JBool True,
                      f_description = [] \<rparr>])])
     = [Some ''fetch'', Some ''has'']"
  using aggregate_report_invariants [of
     "[(''a.js'', [\<lparr> f_id = Some ''fetch'', f_name = Some ''fetch'', f_baseline = JBool True,
                      f_description = [] \<rparr>]),
      (''b.js'', [\<lparr> f_id = Some ''has'', f_name = Some ''has'', f_baseline = JBool False,
                      f_description = [] \<rparr>,
                   \<lparr> f_id = Some ''fetch'', f_name = Some ''fetch'', f_baseline = JBool True,
                      f_description = [] \<rparr>])]"
     "''a.js''" "[]"
     "\<lparr> f_id = Some ''fetch'', f_name = Some ''fetch'', f_baseline = JBool True,
        f_description = [] \<rparr>"]
  by (simp add: hits_def)

section \<open>The per-file loop of run: errors\<close>

lemma failed_scan_leaves_report:
  "scan_file w features path = Inl e \<Longrightarrow>
     try_catch (try_body w features path report) report = Inr report"
  by (simp add: try_catch_def try_body_def)

lemma good_scan_adds_detections:
  "scan_file w features path = Inr detected \<Longrightarrow>
     try_catch (try_body w features path report) report
       = Inr (addDetections path detected report)"
  by (simp add: try_catch_def try_body_def)

text \<open>The loop is the fold of the detections of the files whose scan does not throw.\<close>

lemma scan_loop_as_fold:
  "scan_loop w features files report
     = Inr (foldl (\<lambda>r p. case scan_file w features p of
                             Inl e \<Rightarrow> r
                           | Inr detected \<Rightarrow> addDetections p detected r) report files)"
proof (induction files arbitrary: report)
  case Nil
  then show ?case by simp
next
  case (Cons p files)
  show ?case
  proof (cases "scan_file w features p")
    case (Inl e)
    then show ?thesis
      by (simp add: failed_scan_leaves_report Cons)
  next
    case (Inr detected)
    then show ?thesis
      by (simp add: good_scan_adds_detections Cons)
  qed
qed

lemma scan_loop_skips_failures:
  "scan_loop w features files report
     = scan_loop w features (filter (\<lambda>p. \<forall>e. scan_file w features p \<noteq> Inl e) files) report"
proof -
  let ?step = "\<lambda>r p. case scan_file w features p of
                        Inl e \<Rightarrow> r | Inr detected \<Rightarrow> addDetections p detected r"
  have "foldl ?step report files
          = foldl ?step report (filter (\<lambda>p. \<forall>e. scan_file w features p \<noteq> Inl e) files)"
  proof (induction files arbitrary: report)
    case Nil
    then show ?case by simp
  next
    case (Cons p files)
    then show ?case
      by (cases "scan_file w features p") simp_all
  qed
  then show ?thesis
    by (simp only: scan_loop_as_fold)
qed

lemma script_traversal_error:
  "parse content = Inr ast \<Longrightarrow> rejects ast = Some e \<Longrightarrow>
     detectFeaturesInJS parse rejects content features = Inl e"
  by (simp add: detectFeaturesInJS_def traverse_def)

text \<open>
  C10. The loop over the files always ends with a report, never with an error, and the
  report is the one that the loop makes of the files whose reading and scanning do not
  throw: when reading or scanning a file throws, the \<open>try\<close> statement yields the report
  unchanged, so the file contributes no detection. The exceptions are those of reading
  the file, of the traversal of a script that parsed, of the stylesheet parser and of
  the selector parser. \<open>run\<close> ends with an error only when the search for files
  does, and then with that error.
\<close>

theorem per_file_errors_are_caught:
  "(\<exists>report'. scan_loop w features files report = Inr report')
   \<and> scan_loop w features files report
       = scan_loop w features (filter (\<lambda>p. \<forall>e. scan_file w features p \<noteq> Inl e) files) report
   \<and> (scan_file w features path = Inl e \<longrightarrow>
        try_catch (try_body w features path report) report = Inr report
        \<and> scan_loop w features (path # files) report = scan_loop w features files report)
   \<and> (env_readFile w path = Inl e \<longrightarrow> scan_file w features path = Inl e)
   \<and> (env_readFile w path = Inr content \<and> is_script path
        \<and> env_parse w content = Inr ast \<and> env_rejects w ast = Some e \<longrightarrow>
        scan_file w features path = Inl e)
   \<and> (env_readFile w path = Inr content \<and> \<not> is_script path \<and> endsWith path ''.css''
        \<and> env_postcss_parse w content = Inl e \<longrightarrow> scan_file w features path = Inl e)
   \<and> (env_readFile w path = Inr content \<and> \<not> is_script path \<and> endsWith path ''.css''
        \<and> env_postcss_parse w content = Inr [Rule selector children]
        \<and> env_processSync w selector = Inl e \<longrightarrow> scan_file w features path = Inl e)
   \<and> (run wfFeatures baselineFile ignoreFile w found failOnLimited criticalFeatures = Inl e
        \<longleftrightarrow> found = Inl e)"
proof (intro conjI impI)
  show "\<exists>report'. scan_loop w features files report = Inr report'"
    by (simp add: scan_loop_as_fold)
  show "scan_loop w features files report
       = scan_loop w features (filter (\<lambda>p. \<forall>e. scan_file w features p \<noteq> Inl e) files) report"
    by (rule scan_loop_skips_failures)
  show "run wfFeatures baselineFile ignoreFile w found failOnLimited criticalFeatures = Inl e
        \<longleftrightarrow> found = Inl e"
    by (cases found) (simp_all add: run_def Let_def scan_loop_as_fold)
next
  assume a: "scan_file w features path = Inl e"
  then show "try_catch (try_body w features path report) report = Inr report"
    by (rule failed_scan_leaves_report)
  then show "scan_loop w features (path # files) report = scan_loop w features files report"
    by simp
next
  assume "env_readFile w path = Inl e"
  then show "scan_file w features path = Inl e"
    by (simp add: scan_file_def)
next
  assume "env_readFile w path = Inr content \<and> is_script path
        \<and> env_parse w content = Inr ast \<and> env_rejects w ast = Some e"
  then show "scan_file w features path = Inl e"
    by (simp add: scan_file_def script_traversal_error)
next
  assume "env_readFile w path = Inr content \<and> \<not> is_script path \<and> endsWith path ''.css''
        \<and> env_postcss_parse w content = Inl e"
  then show "scan_file w features path = Inl e"
    by (simp add: scan_file_def detectFeaturesInCSS_def)
next
  assume "env_readFile w path = Inr content \<and> \<not> is_script path \<and> endsWith path ''.css''
        \<and> env_postcss_parse w content = Inr [Rule selector children]
        \<and> env_processSync w selector = Inl e"
  then show "scan_file w features path = Inl e"
    by (simp add: scan_file_def detectFeaturesInCSS_def)
qed

theorem per_file_errors_are_caught_witness:
  "scan_file
     \<lparr> env_readFile = (\<lambda>p. if p = ''a.js'' then Inr ''fetch(u)''
                             else if p = ''bad.css'' then Inr ''a {''
                             else if p = ''two.ts'' then Inr ''fetch; two''
                             else Inl ReadError),
       env_parse = (\<lambda>t. if t = ''fetch(u)''
                          then Inr (OtherNode [Identifier ''fetch'', Identifier ''u''])
                          else if t = ''fetch; two''
                          then Inr (OtherNode [Identifier ''fetch'', Identifier ''two''])
                          else Inl ScriptSyntaxError),
       env_rejects = (\<lambda>ast. if ast = OtherNode [Identifier ''fetch'', Identifier ''two'']
                              then Some TraverseError else None),
       env_postcss_parse = (\<lambda>t. if t = ''a {'' then Inl CssSyntaxError else Inr []),
       env_processSync = (\<lambda>t. Inr []) \<rparr>
     [\<lparr> f_id = Some ''fetch'', f_name = Some ''fetch'', f_baseline = JBool True,
        f_description = [] \<rparr>] ''two.ts'' = Inl TraverseError
   \<and> scan_file
     \<lparr> env_readFile = (\<lambda>p. if p = ''a.js'' then Inr ''fetch(u)''
                             else if p = ''bad.css'' then Inr ''a {''
                             else if p = ''two.ts'' then Inr ''fetch; two''
                             else Inl ReadError),
       env_parse = (\<lambda>t. if t = ''fetch(u)''
                          then Inr (OtherNode [Identifier ''fetch'', Identifier ''u''])
                          else if t = ''fetch; two''
                          then Inr (OtherNode [Identifier ''fetch'', Identifier ''two''])
                          else Inl ScriptSyntaxError),
       env_rejects = (\<lambda>ast. if ast = OtherNode [Identifier ''fetch'', Identifier ''two'']
                              then Some TraverseError else None),
       env_postcss_parse = (\<lambda>t. if t = ''a {'' then Inl CssSyntaxError else Inr []),
       env_processSync = (\<lambda>t. Inr []) \<rparr>
     [\<lparr> f_id = Some ''fetch'', f_name = Some ''fetch'', f_baseline = JBool True,
        f_description = [] \<rparr>] ''bad.css'' = Inl CssSyntaxError
   \<and> scan_loop
     \<lparr> env_readFile = (\<lambda>p. if p = ''a.js'' then Inr ''fetch(u)''
                             else if p = ''bad.css'' then Inr ''a {''
                             else if p = ''two.ts'' then Inr ''fetch; two''
                             else Inl ReadError),
       env_parse = (\<lambda>t. if t = ''fetch(u)''
                          then Inr (OtherNode [Identifier ''fetch'', Identifier ''u''])
                          else if t = ''fetch; two''
                          then Inr (OtherNode [Identifier ''fetch'', Identifier ''two''])
                          else Inl ScriptSyntaxError),
       env_rejects = (\<lambda>ast. if ast = OtherNode [Identifier ''fetch'', Identifier ''two'']
                              then Some TraverseError else None),
       env_postcss_parse = (\<lambda>t. if t = ''a {'' then Inl CssSyntaxError else Inr []),
       env_processSync = (\<lambda>t. Inr []) \<rparr>
     [\<lparr> f_id = Some ''fetch'', f_name = Some ''fetch'', f_baseline = JBool True,
        f_description = [] \<rparr>] [''a.js'', ''bad.css'', ''two.ts'', ''gone.js''] []
     = Inr [(Some ''fetch'',
        \<lparr> e_feature = \<lparr> f_id = Some ''fetch'', f_name = Some ''fetch'', f_baseline = JBool True,
                         f_description = [] \<rparr>,
          e_files = [''a.js''] \<rparr>)]"
  using per_file_errors_are_caught [where
      w = "\<lparr> env_readFile = (\<lambda>p. if p = ''a.js'' then Inr ''fetch(u)''
                             else if p = ''bad.css'' then Inr ''a {''
                             else if p = ''two.ts'' then Inr ''fetch; two''
                             else Inl ReadError),
       env_parse = (\<lambda>t. if t = ''fetch(u)''
                          then Inr (OtherNode [Identifier ''fetch'', Identifier ''u''])
                          else if t = ''fetch; two''
                          then Inr (OtherNode [Identifier ''fetch'', Identifier ''two''])
                          else Inl ScriptSyntaxError),
       env_rejects = (\<lambda>ast. if ast = OtherNode [Identifier ''fetch'', Identifier ''two'']
                              then Some TraverseError else None),
       env_postcss_parse = (\<lambda>t. if t = ''a {'' then Inl CssSyntaxError else Inr []),
       env_processSync = (\<lambda>t. Inr []) \<rparr>"
      and features = "[\<lparr> f_id = Some ''fetch'', f_name = Some ''fetch'', f_baseline = JBool True,
        f_description = [] \<rparr>]"
      and files = "[''two.ts'', ''gone.js'']"
      and report = "[(Some ''fetch'',
        \<lparr> e_feature = \<lparr> f_id = Some ''fetch'', f_name = Some ''fetch'', f_baseline = JBool True,
                         f_description = [] \<rparr>,
          e_files = [''a.js''] \<rparr>)]"
      and path = "''bad.css''" and e = CssSyntaxError and content = "''a {''"]
  by (simp add: is_script_def endsWith_def scan_file_def try_catch_def try_body_def
      detectFeaturesInJS_def traverse_def detectFeaturesInCSS_def featureMap_def new_Map_def
      name_key_def probe_def set_add_def addDetections_def addDetection_def
      toLowerCase_def lower_char_def)

section \<open>Style Detector: pseudo components\<close>

lemma featureMap_lookup:
  "map_of (featureMap features) k = last_with (\<lambda>f. name_key f = k) features"
proof -
  let ?hit = "last_with (\<lambda>f. True \<and> name_key f = k) features"
  have "featureMap features
          = foldl (\<lambda>m f. if True then AList.update (name_key f) ((\<lambda>f. f) f) m else m) [] features"
    by (simp add: featureMap_def new_Map_def foldl_map)
  also have "map_of \<dots> k = (case ?hit of None \<Rightarrow> map_of [] k | Some f \<Rightarrow> Some ((\<lambda>f. f) f))"
    by (rule foldl_update_lookup)
  also have "\<dots> = ?hit"
    by (cases ?hit) simp_all
  finally show ?thesis by simp
qed

lemma set_probe:
  "set (probe fm key used) = set used \<union> {f. map_of fm key = Some f}"
  by (auto simp: probe_def set_add_def split: option.splits)

lemma distinct_probe: "distinct used \<Longrightarrow> distinct (probe fm key used)"
  by (simp add: probe_def set_add_def split: option.splits)

lemma set_foldl_probe:
  "set (foldl (\<lambda>u v. probe fm (key v) u) used vs)
     = set used \<union> {f. \<exists>v \<in> set vs. map_of fm (key v) = Some f}"
  by (induction vs arbitrary: used) (auto simp: set_probe)

lemma distinct_foldl_probe:
  "distinct used \<Longrightarrow> distinct (foldl (\<lambda>u v. probe fm (key v) u) used vs)"
  by (induction vs arbitrary: used) (simp_all add: distinct_probe)

lemma walkPseudos_as_fold:
  "walkPseudos fm n used
     = foldl (\<lambda>u v. probe fm (Some (toLowerCase (strip_colons v))) u) used (pseudo_values n)"
  "walkPseudos_all fm ns used
     = foldl (\<lambda>u v. probe fm (Some (toLowerCase (strip_colons v))) u) used (pseudo_values_all ns)"
  by (induction fm n used and fm ns used rule: walkPseudos_walkPseudos_all.induct) simp_all

lemma walkRules_as_fold:
  "walkRules processSync fm n used = Inr used' \<Longrightarrow>
     used' = foldl (\<lambda>u v. probe fm (Some (toLowerCase (strip_colons v))) u) used
               (stylesheet_pseudos processSync [n])"
  "walkRules_all processSync fm ns used = Inr used' \<Longrightarrow>
     used' = foldl (\<lambda>u v. probe fm (Some (toLowerCase (strip_colons v))) u) used
               (stylesheet_pseudos processSync ns)"
proof (induction processSync fm n used and processSync fm ns used
    arbitrary: used' and used' rule: walkRules_walkRules_all.induct)
  case (1 processSync fm selector children used)
  from "1.prems" obtain selectors where sel: "processSync selector = Inr selectors"
    by (cases "processSync selector") simp_all
  with "1.prems" have
    "walkRules_all processSync fm children (walkPseudos_all fm selectors used) = Inr used'"
    by simp
  from "1.IH" [OF sel this] sel show ?case
    by (simp add: stylesheet_pseudos_def walkPseudos_as_fold)
next
  case (2 processSync fm children used)
  then show ?case by (simp add: stylesheet_pseudos_def)
next
  case (3 processSync fm used)
  then show ?case by (simp add: stylesheet_pseudos_def)
next
  case (4 processSync fm used)
  then show ?case by (simp add: stylesheet_pseudos_def)
next
  case (5 processSync fm used)
  then show ?case by (simp add: stylesheet_pseudos_def)
next
  case (6 processSync fm n ns used)
  from "6.prems" obtain mid where mid: "walkRules processSync fm n used = Inr mid"
    by (cases "walkRules processSync fm n used") simp_all
  with "6.prems" have rest: "walkRules_all processSync fm ns mid = Inr used'"
    by simp
  from "6.IH"(1) [OF mid] "6.IH"(2) [OF mid rest] show ?case
    by (simp add: stylesheet_pseudos_def)
qed

lemma strip_colons_replicate:
  "t = [] \<or> hd t \<noteq> CHR '':'' \<Longrightarrow> strip_colons (replicate n CHR '':'' @ t) = t"
  by (induction n) (auto simp: strip_colons_def dropWhile_eq_self_iff)

lemma colons_split:
  "\<exists>n t. v = replicate n CHR '':'' @ t \<and> (t = [] \<or> hd t \<noteq> CHR '':'')"
proof (induction v)
  case Nil
  then show ?case by simp
next
  case (Cons c v)
  show ?case
  proof (cases "c = CHR '':''")
    case False
    then have "c # v = replicate 0 CHR '':'' @ (c # v) \<and> (c # v = [] \<or> hd (c # v) \<noteq> CHR '':'')"
      by simp
    then show ?thesis by blast
  next
    case True
    from Cons obtain n t where "v = replicate n CHR '':'' @ t" and "t = [] \<or> hd t \<noteq> CHR '':''"
      by blast
    with True have "c # v = replicate (Suc n) CHR '':'' @ t \<and> (t = [] \<or> hd t \<noteq> CHR '':'')"
      by simp
    then show ?thesis by blast
  qed
qed

lemma name_key_fold_case: "name_key g = map_option (map fold_case) (f_name g)"
  by (cases "f_name g") (simp_all add: name_key_def toLowerCase_fold_case)

text \<open>The walk over the rules ends exactly when the selector of every rule parses.\<close>

lemma walkRules_returns:
  "(\<exists>u. walkRules processSync fm n used = Inr u)
     \<longleftrightarrow> (\<forall>sel \<in> set (rule_selectors n). \<exists>s. processSync sel = Inr s)"
  "(\<exists>u. walkRules_all processSync fm ns used = Inr u)
     \<longleftrightarrow> (\<forall>sel \<in> set (rule_selectors_all ns). \<exists>s. processSync sel = Inr s)"
proof (induction processSync fm n used and processSync fm ns used
    rule: walkRules_walkRules_all.induct)
  case (1 processSync fm selector children used)
  show ?case
  proof (cases "processSync selector")
    case (Inl e)
    then show ?thesis by simp
  next
    case (Inr selectors)
    with "1.IH" [OF Inr] show ?thesis by simp
  qed
next
  case (2 processSync fm children used)
  then show ?case by simp
next
  case (3 processSync fm used)
  then show ?case by simp
next
  case (4 processSync fm used)
  then show ?case by simp
next
  case (5 processSync fm used)
  then show ?case by simp
next
  case (6 processSync fm n ns used)
  show ?case
  proof (cases "walkRules processSync fm n used")
    case (Inl e)
    with "6.IH"(1) show ?thesis by auto
  next
    case (Inr mid)
    with "6.IH"(1) "6.IH"(2) [OF Inr] show ?thesis by auto
  qed
qed

lemma stripped_keys:
  "{f. \<exists>v \<in> set vs. Q (strip_colons v) f}
     = {f. \<exists>n t. replicate n CHR '':'' @ t \<in> set vs \<and> (t = [] \<or> hd t \<noteq> CHR '':'') \<and> Q t f}"
proof (intro set_eqI iffI; clarify)
  fix f v
  assume v: "v \<in> set vs" and q: "Q (strip_colons v) f"
  obtain n t where split: "v = replicate n CHR '':'' @ t" and t: "t = [] \<or> hd t \<noteq> CHR '':''"
    using colons_split [of v] by blast
  from t have "strip_colons v = t"
    unfolding split by (rule strip_colons_replicate)
  with q have "Q t f"
    by simp
  moreover from v have "replicate n CHR '':'' @ t \<in> set vs"
    by (simp add: split)
  ultimately
  show "\<exists>n t. replicate n CHR '':'' @ t \<in> set vs \<and> (t = [] \<or> hd t \<noteq> CHR '':'') \<and> Q t f"
    using t by (intro exI [of _ n] exI [of _ t]) simp
next
  fix f n t
  assume v: "replicate n CHR '':'' @ t \<in> set vs" and t: "t = [] \<or> hd t \<noteq> CHR '':''"
    and q: "Q t f"
  from t have "strip_colons (replicate n CHR '':'' @ t) = t"
    by (rule strip_colons_replicate)
  with v q show "\<exists>v \<in> set vs. Q (strip_colons v) f"
    by force
qed

text \<open>
  C8. When the stylesheet parses and the selector of each of its rules parses, the
  Style Detector returns a sequence of distinct features, and a feature is in it exactly
  when some pseudo component of some rule has a value made of any number of colons
  followed by a token \<open>t\<close> that does not begin with a colon, and the feature is the one
  that the lookup table holds for the case-folded \<open>t\<close>: the last feature of the list
  whose case-folded name is the case-folded \<open>t\<close>. So when no feature has the case-folded
  token of any pseudo component as its case-folded name, nothing is detected.
\<close>

theorem style_pseudo_detection:
  "postcss_parse content = Inr root \<Longrightarrow>
   \<forall>sel \<in> set (rule_selectors_all root). \<exists>s. processSync sel = Inr s \<Longrightarrow>
     \<exists>used. detectFeaturesInCSS postcss_parse processSync content features = Inr used
       \<and> distinct used
       \<and> set used
           = {f. \<exists>n t. replicate n CHR '':'' @ t \<in> set (stylesheet_pseudos processSync root)
                   \<and> (t = [] \<or> hd t \<noteq> CHR '':'')
                   \<and> last_with (\<lambda>g. map_option (map fold_case) (f_name g)
                                       = Some (map fold_case t)) features = Some f}
       \<and> ((\<forall>n t. replicate n CHR '':'' @ t \<in> set (stylesheet_pseudos processSync root)
                   \<and> (t = [] \<or> hd t \<noteq> CHR '':'')
                 \<longrightarrow> (\<forall>g \<in> set features.
                        map_option (map fold_case) (f_name g) \<noteq> Some (map fold_case t)))
            \<longrightarrow> used = [])"
proof -
  assume root: "postcss_parse content = Inr root"
    and sels: "\<forall>sel \<in> set (rule_selectors_all root). \<exists>s. processSync sel = Inr s"
  let ?vs = "stylesheet_pseudos processSync root"
  let ?Q = "\<lambda>t f. last_with (\<lambda>g. map_option (map fold_case) (f_name g)
                                   = Some (map fold_case t)) features = Some f"
  from sels obtain used where
    walk: "walkRules_all processSync (featureMap features) root [] = Inr used"
    using walkRules_returns(2) [of processSync "featureMap features" root "[]"] by blast
  with root have res: "detectFeaturesInCSS postcss_parse processSync content features = Inr used"
    by (simp add: detectFeaturesInCSS_def)
  from walk have used:
    "used = foldl (\<lambda>u v. probe (featureMap features) (Some (toLowerCase (strip_colons v))) u) [] ?vs"
    by (rule walkRules_as_fold)
  have d: "distinct used"
    unfolding used by (rule distinct_foldl_probe) simp
  have "set used = {f. \<exists>v \<in> set ?vs. ?Q (strip_colons v) f}"
    unfolding used
    by (simp add: set_foldl_probe featureMap_lookup name_key_fold_case toLowerCase_fold_case)
  also have "\<dots> = {f. \<exists>n t. replicate n CHR '':'' @ t \<in> set ?vs
                   \<and> (t = [] \<or> hd t \<noteq> CHR '':'') \<and> ?Q t f}"
    by (rule stripped_keys)
  finally have s: "set used = {f. \<exists>n t. replicate n CHR '':'' @ t \<in> set ?vs
                   \<and> (t = [] \<or> hd t \<noteq> CHR '':'') \<and> ?Q t f}" .
  have e: "used = []"
    if none: "\<forall>n t. replicate n CHR '':'' @ t \<in> set ?vs \<and> (t = [] \<or> hd t \<noteq> CHR '':'')
                 \<longrightarrow> (\<forall>g \<in> set features.
                        map_option (map fold_case) (f_name g) \<noteq> Some (map fold_case t))"
  proof (cases used)
    case Nil
    then show ?thesis .
  next
    case (Cons f fs)
    then have "f \<in> set used" by simp
    then have "f \<in> {f. \<exists>n t. replicate n CHR '':'' @ t \<in> set ?vs
                   \<and> (t = [] \<or> hd t \<noteq> CHR '':'') \<and> ?Q t f}"
      by (simp only: s)
    then obtain n t where v: "replicate n CHR '':'' @ t \<in> set ?vs"
      and t: "t = [] \<or> hd t \<noteq> CHR '':''" and q: "?Q t f"
      by blast
    from last_with_SomeD [OF q] have "f \<in> set features"
      and "map_option (map fold_case) (f_name f) = Some (map fold_case t)"
      by simp_all
    with none v t have False by blast
    then show ?thesis ..
  qed
  from res d s e show ?thesis by blast
qed

theorem style_pseudo_detection_witness:
  "detectFeaturesInCSS
     (\<lambda>text. if text = ''a:has(b) { color: red }'' then Inr [Rule ''a:has(b)'' [Declaration]]
              else if text = ''a:hover { color: red }'' then Inr [Rule ''a:hover'' [Declaration]]
              else if text = ''p::BEFORE { color: red }'' then Inr [Rule ''p::BEFORE'' [Declaration]]
              else Inl CssSyntaxError)
     (\<lambda>selector. if selector = ''a:has(b)''
                  then Inr [SelNode [SelNode [], Pseudo '':has'' [SelNode [SelNode []]]]]
                  else if selector = ''a:hover'' then Inr [SelNode [SelNode [], Pseudo '':hover'' []]]
                  else if selector = ''p::BEFORE''
                  then Inr [SelNode [SelNode [], Pseudo ''::BEFORE'' []]]
                  else Inl SelectorSyntaxError)
     ''a:has(b) { color: red }''
     [\<lparr> f_id = Some ''has'', f_name = Some ''has'', f_baseline = JBool False, f_description = [] \<rparr>,
      \<lparr> f_id = Some ''before'', f_name = Some ''Before'', f_baseline = JBool True, f_description = [] \<rparr>]
   = Inr [\<lparr> f_id = Some ''has'', f_name = Some ''has'', f_baseline = JBool False, f_description = [] \<rparr>]
   \<and> detectFeaturesInCSS
     (\<lambda>text. if text = ''a:has(b) { color: red }'' then Inr [Rule ''a:has(b)'' [Declaration]]
              else if text = ''a:hover { color: red }'' then Inr [Rule ''a:hover'' [Declaration]]
              else if text = ''p::BEFORE { color: red }'' then Inr [Rule ''p::BEFORE'' [Declaration]]
              else Inl CssSyntaxError)
     (\<lambda>selector. if selector = ''a:has(b)''
                  then Inr [SelNode [SelNode [], Pseudo '':has'' [SelNode [SelNode []]]]]
                  else if selector = ''a:hover'' then Inr [SelNode [SelNode [], Pseudo '':hover'' []]]
                  else if selector = ''p::BEFORE''
                  then Inr [SelNode [SelNode [], Pseudo ''::BEFORE'' []]]
                  else Inl SelectorSyntaxError)
     ''a:hover { color: red }''
     [\<lparr> f_id = Some ''has'', f_name = Some ''has'', f_baseline = JBool False, f_description = [] \<rparr>,
      \<lparr> f_id = Some ''before'', f_name = Some ''Before'', f_baseline = JBool True, f_description = [] \<rparr>]
   = Inr []
   \<and> detectFeaturesInCSS
     (\<lambda>text. if text = ''a:has(b) { color: red }'' then Inr [Rule ''a:has(b)'' [Declaration]]
              else if text = ''a:hover { color: red }'' then Inr [Rule ''a:hover'' [Declaration]]
              else if text = ''p::BEFORE { color: red }'' then Inr [Rule ''p::BEFORE'' [Declaration]]
              else Inl CssSyntaxError)
     (\<lambda>selector. if selector = ''a:has(b)''
                  then Inr [SelNode [SelNode [], Pseudo '':has'' [SelNode [SelNode []]]]]
                  else if selector = ''a:hover'' then Inr [SelNode [SelNode [], Pseudo '':hover'' []]]
                  else if selector = ''p::BEFORE''
                  then Inr [SelNode [SelNode [], Pseudo ''::BEFORE'' []]]
                  else Inl SelectorSyntaxError)
     ''p::BEFORE { color: red }''
     [\<lparr> f_id = Some ''has'', f_name = Some ''has'', f_baseline = JBool False, f_description = [] \<rparr>,
      \<lparr> f_id = Some ''before'', f_name = Some ''Before'', f_baseline = JBool True, f_description = [] \<rparr>]
   = Inr [\<lparr> f_id = Some ''before'', f_name = Some ''Before'', f_baseline = JBool True, f_description = [] \<rparr>]"
  using style_pseudo_detection [of
     "(\<lambda>text. if text = ''a:has(b) { color: red }'' then Inr [Rule ''a:has(b)'' [Declaration]]
              else if text = ''a:hover { color: red }'' then Inr [Rule ''a:hover'' [Declaration]]
              else if text = ''p::BEFORE { color: red }'' then Inr [Rule ''p::BEFORE'' [Declaration]]
              else Inl CssSyntaxError)"
     "''p::BEFORE { color: red }''"
     "[Rule ''p::BEFORE'' [Declaration]]"
     "(\<lambda>selector. if selector = ''a:has(b)''
                  then Inr [SelNode [SelNode [], Pseudo '':has'' [SelNode [SelNode []]]]]
                  else if selector = ''a:hover'' then Inr [SelNode [SelNode [], Pseudo '':hover'' []]]
                  else if selector = ''p::BEFORE''
                  then Inr [SelNode [SelNode [], Pseudo ''::BEFORE'' []]]
                  else Inl SelectorSyntaxError)"
     "[\<lparr> f_id = Some ''has'', f_name = Some ''has'', f_baseline = JBool False, f_description = [] \<rparr>,
      \<lparr> f_id = Some ''before'', f_name = Some ''Before'', f_baseline = JBool True, f_description = [] \<rparr>]"]
  by (simp add: detectFeaturesInCSS_def featureMap_def new_Map_def name_key_def probe_def
      set_add_def strip_colons_def toLowerCase_def lower_char_def)

end
